theory Spec2Isabelle
  imports Main "HOL-Library.AList"
begin

section \<open>The chat server of \<^verbatim>\<open>src/server/server.js\<close>\<close>

text \<open>
  The server keeps four module-level stores (lines 32-35) and registers one handler per
  inbound event on every connected socket (lines 38-163). Each handler runs to completion
  on the event loop, so a handler is a function from the stores to the stores, together
  with the notifications it sends.

  JavaScript values are modelled as follows.
  \<^item> A socket id and a room name are strings; the transport uses one name space for both,
    since every socket is a member of the room named by its own id.
  \<^item> A plain object used as a dictionary is an association list in insertion order:
    \<^verbatim>\<open>obj[k]\<close> is \<open>map_of\<close>, \<^verbatim>\<open>obj[k] = v\<close> is \<open>AList.update\<close> (which keeps the
    position of an existing key and appends a new one), \<^verbatim>\<open>delete obj[k]\<close> is
    \<open>AList.delete\<close> and \<^verbatim>\<open>Object.values(obj)\<close> is \<open>map snd\<close>.
  \<^item> \<^verbatim>\<open>undefined\<close> is \<open>None\<close>; a string is falsy exactly when it is empty.
  \<^item> \<^verbatim>\<open>Date.now()\<close> and \<^verbatim>\<open>new Date().toISOString()\<close> read the wall clock; both
    readings are inputs of the event that triggers them.
  \<^item> An uncaught exception is the value \<open>Inl\<close> of the result.
\<close>

type_synonym sid = string

text \<open>The object of line 43; its field \<^verbatim>\<open>id\<close> is \<open>user_id\<close>.\<close>

record user =
  username :: string
  user_id :: sid

text \<open>
  A stored message; its field \<^verbatim>\<open>id\<close> is \<open>msg_id\<close>. \<open>room\<close> is absent on private
  messages and \<open>isPrivate\<close> is absent (falsy) on room messages. An entry of \<open>readBy\<close>
  is the value of \<^verbatim>\<open>users[socket.id]?.username\<close>, which may be \<^verbatim>\<open>undefined\<close>.
  \<open>reactions\<close> is absent until the first reaction; its keys are the own properties of
  the object.
\<close>

record message =
  msg_id :: int
  sender :: string
  senderId :: sid
  message :: string
  timestamp :: string
  room :: "string option"
  isPrivate :: bool
  readBy :: "string option list"
  reactions :: "(string \<rightharpoonup> string list) option"

text \<open>The payload of \<^verbatim>\<open>send_message\<close>, as the client sends it: a body and an optional room.\<close>

record messageData =
  md_message :: string
  md_room :: "string option"

text \<open>
  The stores of lines 32-35, and the state of the transport that the handlers change with
  \<^verbatim>\<open>socket.join\<close> and \<^verbatim>\<open>socket.leave\<close>: the connected sockets, each with the rooms it
  has joined.
\<close>

record state =
  users :: "(sid \<times> user) list"
  messages :: "message list"
  typingUsers :: "(sid \<times> string) list"
  userRooms :: "(sid \<times> string) list"
  sockets :: "(sid \<times> string list) list"

definition init :: state where
  "init = \<lparr>users = [], messages = [], typingUsers = [], userRooms = [], sockets = []\<rparr>"

datatype notification =
    UserList "user list"
  | UserJoined user
  | UserLeft user
  | ReceiveMessage message
  | TypingUsers "string list"
  | PrivateMessageN message
  | MessageRead int "string option list"
  | MessageReacted int "string \<rightharpoonup> string list"

text \<open>A delivery is a notification with the sockets that receive it.\<close>

type_synonym delivery = "sid list \<times> notification"

datatype js_error = TypeError

subsection \<open>The transport\<close>

definition connected :: "state \<Rightarrow> sid list" where
  "connected s = map fst (sockets s)"

definition in_room :: "state \<Rightarrow> string \<Rightarrow> sid list" where
  "in_room s r = map fst (filter (\<lambda>(c, rs). r \<in> set rs) (sockets s))"

text \<open>\<^verbatim>\<open>io.emit\<close>: every connected socket.\<close>

definition io_emit :: "state \<Rightarrow> notification \<Rightarrow> delivery" where
  "io_emit s n = (connected s, n)"

text \<open>\<^verbatim>\<open>io.to(r).emit\<close>: every socket that has joined \<open>r\<close>.\<close>

definition io_to_emit :: "state \<Rightarrow> string \<Rightarrow> notification \<Rightarrow> delivery" where
  "io_to_emit s r n = (in_room s r, n)"

text \<open>
  \<^verbatim>\<open>socket.to(r).emit\<close>: every socket that has joined \<open>r\<close>, except the sockets that have
  joined the room named by the id of the sending socket. That room holds the sending
  socket, unless it has left it, and every socket that joined a room of that name.
\<close>

definition socket_to_emit :: "state \<Rightarrow> sid \<Rightarrow> string \<Rightarrow> notification \<Rightarrow> delivery" where
  "socket_to_emit s c r n = (filter (\<lambda>d. d \<notin> set (in_room s c)) (in_room s r), n)"

text \<open>\<^verbatim>\<open>socket.emit\<close>: the socket itself.\<close>

definition socket_emit :: "sid \<Rightarrow> notification \<Rightarrow> delivery" where
  "socket_emit c n = ([c], n)"

definition socket_join :: "sid \<Rightarrow> string \<Rightarrow> (sid \<times> string list) list \<Rightarrow> (sid \<times> string list) list" where
  "socket_join c r socks =
     map (\<lambda>(k, rs). if k = c then (k, if r \<in> set rs then rs else rs @ [r]) else (k, rs)) socks"

definition socket_leave :: "sid \<Rightarrow> string \<Rightarrow> (sid \<times> string list) list \<Rightarrow> (sid \<times> string list) list" where
  "socket_leave c r socks =
     map (\<lambda>(k, rs). if k = c then (k, removeAll r rs) else (k, rs)) socks"

subsection \<open>JavaScript helpers\<close>

text \<open>\<^verbatim>\<open>a || d\<close> for an optional string \<open>a\<close> and a string \<open>d\<close>.\<close>

definition js_or :: "string option \<Rightarrow> string \<Rightarrow> string" where
  "js_or a d = (case a of None \<Rightarrow> d | Some x \<Rightarrow> if x = [] then d else x)"

text \<open>\<^verbatim>\<open>users[socket.id]?.username\<close>\<close>

definition username_of :: "state \<Rightarrow> sid \<Rightarrow> string option" where
  "username_of s c = map_option username (map_of (users s) c)"

text \<open>\<^verbatim>\<open>messages.find((m) => m.id === messageId)\<close>\<close>

definition find_message :: "message list \<Rightarrow> int \<Rightarrow> message option" where
  "find_message ms i = find (\<lambda>m. msg_id m = i) ms"

text \<open>
  The handlers mutate the object that \<^verbatim>\<open>find\<close> returned, which is the first element of
  the array with that id.
\<close>

fun update_first :: "('a \<Rightarrow> bool) \<Rightarrow> ('a \<Rightarrow> 'a) \<Rightarrow> 'a list \<Rightarrow> 'a list" where
  "update_first P f [] = []"
| "update_first P f (x # xs) = (if P x then f x # xs else x # update_first P f xs)"

text \<open>
  \<^verbatim>\<open>messages.push(m); if (messages.length > 100) messages.shift();\<close>
  (lines 74-77 and 108-111).
\<close>

definition push_bounded :: "message list \<Rightarrow> message \<Rightarrow> message list" where
  "push_bounded ms m = (let ms' = ms @ [m] in if length ms' > 100 then tl ms' else ms')"

text \<open>
  The members that every plain object inherits from \<^verbatim>\<open>Object.prototype\<close>. A read
  \<^verbatim>\<open>obj[k]\<close> of a key that is no own property of \<open>obj\<close> returns the inherited member
  for these names (a function, or the prototype itself for \<^verbatim>\<open>__proto__\<close>), and
  \<^verbatim>\<open>undefined\<close> for every other name. The keys of \<open>users\<close>, \<open>typingUsers\<close> and
  \<open>userRooms\<close> are socket ids, which the transport generates and which are never such a
  name; the keys of \<open>reactions\<close> come from the client.
\<close>

definition object_prototype_names :: "string list" where
  "object_prototype_names =
     [''constructor'', ''__proto__'', ''hasOwnProperty'', ''isPrototypeOf'',
      ''propertyIsEnumerable'', ''toLocaleString'', ''toString'', ''valueOf'',
      ''__defineGetter__'', ''__defineSetter__'', ''__lookupGetter__'', ''__lookupSetter__'']"

subsection \<open>The handlers\<close>

text \<open>\<^verbatim>\<open>user_join\<close>, lines 42-49.\<close>

definition user_join :: "state \<Rightarrow> sid \<Rightarrow> string \<Rightarrow> js_error + state \<times> delivery list" where
  "user_join s c name =
     (let u = \<lparr>username = name, user_id = c\<rparr>;
          s1 = s\<lparr>users := AList.update c u (users s),
                 userRooms := AList.update c ''General'' (userRooms s),
                 sockets := socket_join c ''General'' (sockets s)\<rparr>
      in Inr (s1, [io_emit s1 (UserList (map snd (users s1))), io_emit s1 (UserJoined u)]))"

text \<open>\<^verbatim>\<open>join_room\<close>, lines 52-60.\<close>

definition join_room :: "state \<Rightarrow> sid \<Rightarrow> string \<Rightarrow> js_error + state \<times> delivery list" where
  "join_room s c r =
     (let socks1 = (case map_of (userRooms s) c of
                      None \<Rightarrow> sockets s
                    | Some prevRoom \<Rightarrow>
                        if prevRoom = [] then sockets s else socket_leave c prevRoom (sockets s))
      in Inr (s\<lparr>sockets := socket_join c r socks1,
                userRooms := AList.update c r (userRooms s)\<rparr>, []))"

text \<open>\<^verbatim>\<open>send_message\<close>, lines 63-79. The resolved room and the object literal come first.\<close>

definition resolve_room :: "state \<Rightarrow> sid \<Rightarrow> messageData \<Rightarrow> string" where
  "resolve_room s c md = js_or (md_room md) (js_or (map_of (userRooms s) c) ''General'')"

definition room_message :: "state \<Rightarrow> sid \<Rightarrow> int \<Rightarrow> string \<Rightarrow> messageData \<Rightarrow> message" where
  "room_message s c now stamp md =
     \<lparr>msg_id = now,
      sender = js_or (username_of s c) ''Anonymous'',
      senderId = c,
      message = md_message md,
      timestamp = stamp,
      room = Some (resolve_room s c md),
      isPrivate = False,
      readBy = [username_of s c],
      reactions = None\<rparr>"

definition send_message ::
  "state \<Rightarrow> sid \<Rightarrow> int \<Rightarrow> string \<Rightarrow> messageData \<Rightarrow> js_error + state \<times> delivery list" where
  "send_message s c now stamp md =
     (let m = room_message s c now stamp md;
          s1 = s\<lparr>messages := push_bounded (messages s) m\<rparr>
      in Inr (s1, [io_to_emit s1 (resolve_room s c md) (ReceiveMessage m)]))"

text \<open>\<^verbatim>\<open>typing\<close>, lines 82-93.\<close>

definition typing :: "state \<Rightarrow> sid \<Rightarrow> bool \<Rightarrow> js_error + state \<times> delivery list" where
  "typing s c isTyping =
     (case map_of (users s) c of
        None \<Rightarrow> Inr (s, [])
      | Some u \<Rightarrow>
          (let s1 = s\<lparr>typingUsers :=
                        (if isTyping then AList.update c (username u) (typingUsers s)
                         else AList.delete c (typingUsers s))\<rparr>
           in Inr (s1, [io_emit s1 (TypingUsers (map snd (typingUsers s1)))])))"

text \<open>\<^verbatim>\<open>private_message\<close>, lines 96-112. The stored object has no field for the recipient.\<close>

definition private_message_data :: "state \<Rightarrow> sid \<Rightarrow> int \<Rightarrow> string \<Rightarrow> string \<Rightarrow> message" where
  "private_message_data s c now stamp body =
     \<lparr>msg_id = now,
      sender = js_or (username_of s c) ''Anonymous'',
      senderId = c,
      message = body,
      timestamp = stamp,
      room = None,
      isPrivate = True,
      readBy = [username_of s c],
      reactions = None\<rparr>"

definition private_message ::
  "state \<Rightarrow> sid \<Rightarrow> int \<Rightarrow> string \<Rightarrow> string \<Rightarrow> string \<Rightarrow> js_error + state \<times> delivery list" where
  "private_message s c now stamp to body =
     (let m = private_message_data s c now stamp body
      in Inr (s\<lparr>messages := push_bounded (messages s) m\<rparr>,
              [socket_to_emit s c to (PrivateMessageN m), socket_emit c (PrivateMessageN m)]))"

text \<open>
  The target of a read receipt or of a reaction update (lines 122-126 and 140-146): the
  sender's own room for a private message, else the message's room; a reaction on a
  message with neither goes to everybody, a read receipt to nobody.
\<close>

definition notify_read :: "state \<Rightarrow> message \<Rightarrow> notification \<Rightarrow> delivery list" where
  "notify_read s msg n =
     (if isPrivate msg then [io_to_emit s (senderId msg) n]
      else (case room msg of
              None \<Rightarrow> []
            | Some r \<Rightarrow> if r = [] then [] else [io_to_emit s r n]))"

definition notify_reacted :: "state \<Rightarrow> message \<Rightarrow> notification \<Rightarrow> delivery list" where
  "notify_reacted s msg n =
     (if isPrivate msg then [io_to_emit s (senderId msg) n]
      else (case room msg of
              None \<Rightarrow> [io_emit s n]
            | Some r \<Rightarrow> if r = [] then [io_emit s n] else [io_to_emit s r n]))"

text \<open>\<^verbatim>\<open>read_message\<close>, lines 115-128.\<close>

definition read_message :: "state \<Rightarrow> sid \<Rightarrow> int \<Rightarrow> js_error + state \<times> delivery list" where
  "read_message s c messageId =
     (case find_message (messages s) messageId of
        None \<Rightarrow> Inr (s, [])
      | Some msg \<Rightarrow>
          (case username_of s c of
             None \<Rightarrow> Inr (s, [])
           | Some u \<Rightarrow>
               if u \<noteq> [] \<and> Some u \<notin> set (readBy msg) then
                 (let msg' = msg\<lparr>readBy := readBy msg @ [Some u]\<rparr>;
                      s1 = s\<lparr>messages :=
                              update_first (\<lambda>m. msg_id m = messageId) (\<lambda>_. msg') (messages s)\<rparr>
                  in Inr (s1, notify_read s1 msg' (MessageRead messageId (readBy msg'))))
               else Inr (s, [])))"

text \<open>
  \<^verbatim>\<open>react_message\<close>, lines 131-148. When \<open>reaction\<close> is no own property of
  \<^verbatim>\<open>msg.reactions\<close> and names a member of \<^verbatim>\<open>Object.prototype\<close>, line 135 stores the
  inherited member (it is truthy) and line 136 calls its \<^verbatim>\<open>includes\<close>, which is
  \<^verbatim>\<open>undefined\<close>: the handler throws a \<^verbatim>\<open>TypeError\<close>.
\<close>

definition react_message ::
  "state \<Rightarrow> sid \<Rightarrow> int \<Rightarrow> string \<Rightarrow> string \<Rightarrow> js_error + state \<times> delivery list" where
  "react_message s c messageId reaction name =
     (case find_message (messages s) messageId of
        None \<Rightarrow> Inr (s, [])
      | Some msg \<Rightarrow>
          (let rs = (case reactions msg of None \<Rightarrow> Map.empty | Some x \<Rightarrow> x)
           in if rs reaction = None \<and> reaction \<in> set object_prototype_names then Inl TypeError
              else
                (let l = (case rs reaction of None \<Rightarrow> [] | Some x \<Rightarrow> x);
                     l' = (if name \<in> set l then l else l @ [name]);
                     rs' = rs(reaction \<mapsto> l');
                     msg' = msg\<lparr>reactions := Some rs'\<rparr>;
                     s1 = s\<lparr>messages :=
                             update_first (\<lambda>m. msg_id m = messageId) (\<lambda>_. msg') (messages s)\<rparr>
                 in Inr (s1, notify_reacted s1 msg' (MessageReacted messageId rs')))))"

text \<open>\<^verbatim>\<open>disconnect\<close>, lines 151-162.\<close>

definition disconnect :: "state \<Rightarrow> sid \<Rightarrow> js_error + state \<times> delivery list" where
  "disconnect s c =
     (let left = (case map_of (users s) c of
                    None \<Rightarrow> []
                  | Some u \<Rightarrow> [io_emit s (UserLeft \<lparr>username = username u, user_id = c\<rparr>)]);
          s1 = s\<lparr>users := AList.delete c (users s),
                 typingUsers := AList.delete c (typingUsers s),
                 userRooms := AList.delete c (userRooms s)\<rparr>
      in Inr (s1, left @ [io_emit s1 (UserList (map snd (users s1))),
                          io_emit s1 (TypingUsers (map snd (typingUsers s1)))]))"

subsection \<open>Dispatch\<close>

text \<open>
  The inbound events. A handler exists only while its socket is connected (line 38
  registers the handlers on connection). On connection the transport puts the socket
  into the room named by its id; when a socket closes, the transport takes it out of
  every room before the \<^verbatim>\<open>disconnect\<close> handler runs.
\<close>

datatype event =
    Connect
  | UserJoin string
  | JoinRoom string
  | SendMessage int string messageData
  | Typing bool
  | PrivateMessage int string string string
  | ReadMessage int
  | ReactMessage int string string
  | Disconnect

definition dispatch :: "state \<Rightarrow> sid \<times> event \<Rightarrow> js_error + state \<times> delivery list" where
  "dispatch s ce =
     (case ce of (c, ev) \<Rightarrow>
        if c \<in> set (connected s) then
          (case ev of
             Connect \<Rightarrow> Inr (s, [])
           | UserJoin name \<Rightarrow> user_join s c name
           | JoinRoom r \<Rightarrow> join_room s c r
           | SendMessage now stamp md \<Rightarrow> send_message s c now stamp md
           | Typing b \<Rightarrow> typing s c b
           | PrivateMessage now stamp to body \<Rightarrow> private_message s c now stamp to body
           | ReadMessage i \<Rightarrow> read_message s c i
           | ReactMessage i reaction name \<Rightarrow> react_message s c i reaction name
           | Disconnect \<Rightarrow> disconnect (s\<lparr>sockets := AList.delete c (sockets s)\<rparr>) c)
        else
          (case ev of
             Connect \<Rightarrow> Inr (s\<lparr>sockets := sockets s @ [(c, [c])]\<rparr>, [])
           | _ \<Rightarrow> Inr (s, [])))"

text \<open>A run of events stops at the first uncaught exception.\<close>

fun run :: "state \<Rightarrow> (sid \<times> event) list \<Rightarrow> js_error + state \<times> delivery list" where
  "run s [] = Inr (s, [])"
| "run s (e # es) =
     (case dispatch s e of
        Inl err \<Rightarrow> Inl err
      | Inr (s1, ds1) \<Rightarrow>
          (case run s1 es of
             Inl err \<Rightarrow> Inl err
           | Inr (s2, ds2) \<Rightarrow> Inr (s2, ds1 @ ds2)))"

subsection \<open>The history of the ledger\<close>

text \<open>
  An event appends to the ledger when it is a \<^verbatim>\<open>send_message\<close> or a
  \<^verbatim>\<open>private_message\<close> of a connected socket; \<open>appended\<close> is the message it stores. The
  history of a run of such events is every message that was ever in the ledger, oldest
  first.
\<close>

definition appended :: "state \<Rightarrow> sid \<times> event \<Rightarrow> message list" where
  "appended s ce =
     (case ce of (c, ev) \<Rightarrow>
        (case ev of
           SendMessage now stamp md \<Rightarrow> [room_message s c now stamp md]
         | PrivateMessage now stamp to body \<Rightarrow> [private_message_data s c now stamp body]
         | _ \<Rightarrow> []))"

definition appends :: "state \<Rightarrow> sid \<times> event \<Rightarrow> bool" where
  "appends s ce =
     (case ce of (c, ev) \<Rightarrow>
        c \<in> set (connected s) \<and>
        (case ev of
           SendMessage now stamp md \<Rightarrow> True
         | PrivateMessage now stamp to body \<Rightarrow> True
         | _ \<Rightarrow> False))"

definition ledger_history :: "state \<Rightarrow> (sid \<times> event) list \<Rightarrow> message list" where
  "ledger_history s evs = messages s @ concat (map (appended s) evs)"

subsection \<open>Invariants\<close>

text \<open>No message lists a reader twice.\<close>

definition readBy_distinct :: "state \<Rightarrow> bool" where
  "readBy_distinct s = list_all (\<lambda>m. distinct (readBy m)) (messages s)"

text \<open>Every user of the registry is stored under its own connection id (line 43).\<close>

definition users_keyed :: "state \<Rightarrow> bool" where
  "users_keyed s = list_all (\<lambda>(k, u). user_id u = k) (users s)"

text \<open>
  A connection is absent from a state when it is not connected and not in the user
  registry, and the registry is keyed as above.
\<close>

definition absent :: "sid \<Rightarrow> state \<Rightarrow> bool" where
  "absent c s = (users_keyed s \<and> c \<notin> set (connected s) \<and> map_of (users s) c = None)"

text \<open>
  A delivery passes a connection by when the connection does not receive it and, if it
  is a presence list, no user of the list has the connection's id.
\<close>

definition passes_by :: "sid \<Rightarrow> delivery \<Rightarrow> bool" where
  "passes_by c d =
     (case d of (rcv, n) \<Rightarrow>
        c \<notin> set rcv \<and>
        (case n of UserList us \<Rightarrow> c \<notin> set (map user_id us) | _ \<Rightarrow> True))"

subsection \<open>Room membership and transport rooms\<close>

text \<open>
  The room directory as the specification words it: the members of a room are the
  connections whose entry in \<open>userRooms\<close> is that room. The handlers do not compute this
  set; they send to the transport room of that name (\<open>in_room\<close>).
\<close>

definition membersOf :: "state \<Rightarrow> string \<Rightarrow> sid list" where
  "membersOf s r = filter (\<lambda>c. map_of (userRooms s) c = Some r) (connected s)"

text \<open>
  The two agree in a state where every connected socket has joined exactly the room of
  its own id and the room of its membership.
\<close>

definition rooms_synced :: "state \<Rightarrow> bool" where
  "rooms_synced s =
     (distinct (connected s) \<and>
      list_all (\<lambda>(c, rs). set rs = insert c (set_option (map_of (userRooms s) c))) (sockets s))"

section \<open>Properties\<close>

lemmas handler_defs = dispatch_def user_join_def join_room_def send_message_def typing_def
  private_message_def read_message_def react_message_def disconnect_def
  room_message_def private_message_data_def resolve_room_def js_or_def username_of_def
  find_message_def push_bounded_def io_emit_def io_to_emit_def socket_to_emit_def socket_emit_def
  socket_join_def socket_leave_def connected_def in_room_def notify_read_def notify_reacted_def
  init_def Let_def

subsection \<open>Message ids\<close>

text \<open>
  Claim C1: every appended message gets a unique id, and ids are strictly increasing in
  insertion order, even when two messages are appended within the same millisecond.
  The handlers take the id from \<^verbatim>\<open>Date.now()\<close> (lines 67 and 98). Two events that
  read the same millisecond store two messages with the same id: here a room message and
  a private message, both at clock reading 1000.
\<close>

theorem same_millisecond_same_id:
  "(case run init
      [(''A'', Connect),
       (''A'', SendMessage 1000 ''t1'' \<lparr>md_message = ''hi'', md_room = None\<rparr>),
       (''A'', PrivateMessage 1000 ''t2'' ''B'' ''ho'')] of
      Inl e \<Rightarrow> False
    | Inr (s, ds) \<Rightarrow> map msg_id (messages s) = [1000, 1000])"
  by (simp add: handler_defs)

subsection \<open>Messages of an unregistered connection\<close>

lemma last_push_bounded: "last (push_bounded ms m) = m"
  by (cases ms) (simp_all add: push_bounded_def Let_def)

text \<open>
  Claim C10: a \<^verbatim>\<open>send_message\<close> or \<^verbatim>\<open>private_message\<close> event of a connection that is
  not in the user registry stores and sends a message whose sender is \<^verbatim>\<open>Anonymous\<close>
  and whose \<open>readBy\<close> holds the undefined username, not \<^verbatim>\<open>Anonymous\<close>.
\<close>

theorem unregistered_sender:
  assumes "map_of (users s) c = None"
  shows "(\<exists>s' rcv m. send_message s c now stamp md = Inr (s', [(rcv, ReceiveMessage m)]) \<and>
            last (messages s') = m \<and> sender m = ''Anonymous'' \<and> readBy m = [None] \<and>
            Some ''Anonymous'' \<notin> set (readBy m)) \<and>
         (\<exists>s' ds m. private_message s c now stamp to body = Inr (s', ds) \<and>
            map snd ds = [PrivateMessageN m, PrivateMessageN m] \<and>
            last (messages s') = m \<and> sender m = ''Anonymous'' \<and> readBy m = [None] \<and>
            Some ''Anonymous'' \<notin> set (readBy m))"
  using assms
  by (simp add: send_message_def private_message_def room_message_def private_message_data_def
      username_of_def js_or_def io_to_emit_def socket_to_emit_def socket_emit_def
      last_push_bounded Let_def)

theorem unregistered_sender_witness:
  "map_of (users init) ''A'' = None \<and>
   (\<exists>s' rcv m. send_message init ''A'' 5 ''t'' \<lparr>md_message = ''hi'', md_room = None\<rparr> =
        Inr (s', [(rcv, ReceiveMessage m)]) \<and>
      last (messages s') = m \<and> sender m = ''Anonymous'' \<and> readBy m = [None] \<and>
      Some ''Anonymous'' \<notin> set (readBy m)) \<and>
   (\<exists>s' ds m. private_message init ''A'' 5 ''t'' ''B'' ''hi'' = Inr (s', ds) \<and>
      map snd ds = [PrivateMessageN m, PrivateMessageN m] \<and>
      last (messages s') = m \<and> sender m = ''Anonymous'' \<and> readBy m = [None] \<and>
      Some ''Anonymous'' \<notin> set (readBy m))"
proof -
  have h: "map_of (users init) ''A'' = None"
    by (simp add: init_def)
  from unregistered_sender [OF h] h show ?thesis
    by blast
qed

subsection \<open>Registration\<close>

text \<open>
  Claim C8 says that registering a connection that is already in the registry fails with
  \<^verbatim>\<open>DuplicateConnection\<close>. The handler has no such check: a second \<^verbatim>\<open>user_join\<close> of
  connection \<^verbatim>\<open>A\<close> succeeds and replaces the stored user name.
\<close>

theorem rejoin_counterexample:
  "(case run init [(''A'', Connect), (''A'', UserJoin ''alice''), (''A'', UserJoin ''bob'')] of
      Inl e \<Rightarrow> False
    | Inr (s, ds) \<Rightarrow> users s = [(''A'', \<lparr>username = ''bob'', user_id = ''A''\<rparr>)])"
  by (simp add: handler_defs)

text \<open>
  Claim C8, amended: \<^verbatim>\<open>user_join\<close> never fails; it stores the user for the connection,
  replacing an entry that is already there, and sets the connection's room membership to
  \<^verbatim>\<open>General\<close>.
\<close>

theorem user_join_total:
  "\<exists>s' ds. user_join s c name = Inr (s', ds) \<and>
     map_of (users s') c = Some \<lparr>username = name, user_id = c\<rparr> \<and>
     map_of (userRooms s') c = Some ''General''"
  by (simp add: user_join_def Let_def update_conv')

subsection \<open>The capacity of the ledger\<close>

lemma push_bounded_below: "length ms < 100 \<Longrightarrow> push_bounded ms m = ms @ [m]"
  by (simp add: push_bounded_def Let_def)

lemma push_bounded_full: "length ms = 100 \<Longrightarrow> push_bounded ms m = tl ms @ [m]"
  by (cases ms) (simp_all add: push_bounded_def Let_def)

lemma push_bounded_drop:
  assumes "k = length xs - 100"
  shows "push_bounded (drop k xs) m = drop (length (xs @ [m]) - 100) (xs @ [m])"
proof (cases "length xs < 100")
  case True
  with assms show ?thesis by (simp add: push_bounded_below)
next
  case False
  then have len: "length (drop k xs) = 100" using assms by simp
  have "push_bounded (drop k xs) m = tl (drop k xs) @ [m]"
    using len by (rule push_bounded_full)
  also have "\<dots> = drop (Suc k) xs @ [m]"
    by (simp add: drop_Suc tl_drop)
  also have "\<dots> = drop (Suc k) (xs @ [m])"
    using False assms by simp
  also have "Suc k = length (xs @ [m]) - 100"
    using False assms by simp
  finally show ?thesis .
qed

lemma foldl_push_bounded:
  "length ms \<le> 100 \<Longrightarrow>
   foldl push_bounded ms new = drop (length (ms @ new) - 100) (ms @ new)"
proof (induction new rule: rev_induct)
  case Nil
  then show ?case by simp
next
  case (snoc m new)
  then have "foldl push_bounded ms (new @ [m]) =
             push_bounded (drop (length (ms @ new) - 100) (ms @ new)) m"
    by simp
  also have "\<dots> = drop (length ((ms @ new) @ [m]) - 100) ((ms @ new) @ [m])"
    by (rule push_bounded_drop) simp
  finally show ?case by simp
qed

lemma appends_messages [simp]: "appends (s\<lparr>messages := ms\<rparr>) = appends s"
  by (rule ext) (simp add: appends_def connected_def)

lemma appended_messages [simp]: "appended (s\<lparr>messages := ms\<rparr>) = appended s"
  by (rule ext) (simp add: appended_def room_message_def private_message_data_def username_of_def
      resolve_room_def split: prod.splits event.splits)

lemma dispatch_appends:
  assumes "appends s ce"
  shows "\<exists>m ds. appended s ce = [m] \<and>
           dispatch s ce = Inr (s\<lparr>messages := push_bounded (messages s) m\<rparr>, ds)"
  using assms
  by (auto simp: appends_def appended_def dispatch_def send_message_def private_message_def
      Let_def split: prod.splits event.splits)

lemma run_appends:
  "list_all (appends s) evs \<Longrightarrow>
   \<exists>ds. run s evs =
     Inr (s\<lparr>messages := foldl push_bounded (messages s) (concat (map (appended s) evs))\<rparr>, ds)"
proof (induction evs arbitrary: s)
  case Nil
  then show ?case by simp
next
  case (Cons ce evs)
  from Cons.prems have hd: "appends s ce" and tl: "list_all (appends s) evs"
    by simp_all
  from dispatch_appends [OF hd] obtain m ds1 where
    m: "appended s ce = [m]" and
    d: "dispatch s ce = Inr (s\<lparr>messages := push_bounded (messages s) m\<rparr>, ds1)"
    by blast
  let ?s1 = "s\<lparr>messages := push_bounded (messages s) m\<rparr>"
  from tl have "list_all (appends ?s1) evs"
    by simp
  from Cons.IH [OF this] obtain ds2 where
    "run ?s1 evs = Inr (?s1\<lparr>messages :=
        foldl push_bounded (messages ?s1) (concat (map (appended ?s1) evs))\<rparr>, ds2)"
    by blast
  with m d show ?case
    by simp
qed

lemma find_message_None: "find_message ms i = None \<longleftrightarrow> i \<notin> msg_id ` set ms"
  by (auto simp: find_message_def find_None_iff)

lemma distinct_take_drop_disjoint:
  "distinct (map f xs) \<Longrightarrow> x \<in> set (take k xs) \<Longrightarrow> f x \<notin> f ` set (drop k xs)"
proof -
  assume d: "distinct (map f xs)" and x: "x \<in> set (take k xs)"
  have "map f xs = map f (take k xs) @ map f (drop k xs)"
    by (simp flip: map_append)
  with d have "set (map f (take k xs)) \<inter> set (map f (drop k xs)) = {}"
    by (metis distinct_append)
  with x show ?thesis by auto
qed

text \<open>
  Appending to a ledger of at most 100 messages keeps the newest 100 messages of the
  history, in order: each append at capacity drops exactly the oldest message. A message
  that was dropped is not found by its id, provided no other message has that id.
\<close>

lemma ledger_capacity:
  assumes "list_all (appends s) evs" and "length (messages s) \<le> 100"
  shows "\<exists>s' ds. run s evs = Inr (s', ds) \<and>
           length (ledger_history s evs) = length (messages s) + length evs \<and>
           messages s' = drop (length (ledger_history s evs) - 100) (ledger_history s evs) \<and>
           length (messages s') = min (length (ledger_history s evs)) 100 \<and>
           (distinct (map msg_id (ledger_history s evs)) \<longrightarrow>
              list_all (\<lambda>m. find_message (messages s') (msg_id m) = None)
                (take (length (ledger_history s evs) - 100) (ledger_history s evs)))"
proof -
  let ?h = "ledger_history s evs"
  from run_appends [OF assms(1)] obtain ds where
    r: "run s evs = Inr (s\<lparr>messages :=
          foldl push_bounded (messages s) (concat (map (appended s) evs))\<rparr>, ds)"
    by blast
  let ?s' = "s\<lparr>messages := foldl push_bounded (messages s) (concat (map (appended s) evs))\<rparr>"
  have m: "messages ?s' = drop (length ?h - 100) ?h"
    using foldl_push_bounded [OF assms(2)] by (simp add: ledger_history_def)
  have "\<And>ce. ce \<in> set evs \<Longrightarrow> length (appended s ce) = 1"
    using assms(1) dispatch_appends by (fastforce simp: list_all_iff)
  then have "length (concat (map (appended s) evs)) = length evs"
    by (induction evs) simp_all
  then have l: "length ?h = length (messages s) + length evs"
    by (simp add: ledger_history_def)
  have f: "list_all (\<lambda>m. find_message (messages ?s') (msg_id m) = None)
             (take (length ?h - 100) ?h)" if "distinct (map msg_id ?h)"
    unfolding list_all_iff find_message_None m
    using distinct_take_drop_disjoint [OF that] by blast
  from r l m f show ?thesis
    by (intro exI [of _ ?s'] exI [of _ ds]) (simp add: min_def)
qed


text \<open>After 150 appends with distinct ids, the ledger holds the newest 100.\<close>

lemma ledger_capacity_150:
  "list_all (appends (init\<lparr>sockets := [(''A'', [''A''])]\<rparr>))
     (map (\<lambda>i. (''A'', SendMessage (int i) ''t'' \<lparr>md_message = ''hi'', md_room = None\<rparr>))
        [0..<150]) \<and>
   length (messages (init\<lparr>sockets := [(''A'', [''A''])]\<rparr>)) \<le> 100 \<and>
   (\<exists>s' ds.
      run (init\<lparr>sockets := [(''A'', [''A''])]\<rparr>)
        (map (\<lambda>i. (''A'', SendMessage (int i) ''t'' \<lparr>md_message = ''hi'', md_room = None\<rparr>))
           [0..<150]) = Inr (s', ds) \<and>
      length (messages s') = 100 \<and>
      map msg_id (messages s') = map int [50..<150] \<and>
      list_all (\<lambda>i. find_message (messages s') (int i) = None) [0..<50])"
proof -
  define s0 where "s0 = init\<lparr>sockets := [(''A'', [''A''])]\<rparr>"
  define evs where
    "evs = map (\<lambda>i. (''A'', SendMessage (int i) ''t'' \<lparr>md_message = ''hi'', md_room = None\<rparr>))
             [0..<150]"
  have a: "list_all (appends s0) evs"
    by (simp add: list_all_iff appends_def connected_def s0_def evs_def)
  have b: "length (messages s0) \<le> 100"
    by (simp add: s0_def init_def)
  have h: "map msg_id (ledger_history s0 evs) = map int [0..<150]"
    by (simp add: ledger_history_def appended_def evs_def s0_def init_def room_message_def
        map_concat comp_def)
  have d: "distinct (map msg_id (ledger_history s0 evs))"
    unfolding h by (simp add: distinct_map)
  from ledger_capacity [OF a b] d obtain s' ds where
    r: "run s0 evs = Inr (s', ds)" and
    l: "length (messages s') = min (length (ledger_history s0 evs)) 100" and
    m: "messages s' = drop (length (ledger_history s0 evs) - 100) (ledger_history s0 evs)" and
    f: "list_all (\<lambda>m. find_message (messages s') (msg_id m) = None)
          (take (length (ledger_history s0 evs) - 100) (ledger_history s0 evs))"
    by blast
  have len: "length (ledger_history s0 evs) = 150"
    using arg_cong [OF h, of length] by simp
  have m': "map msg_id (messages s') = map int [50..<150]"
    unfolding m len using arg_cong [OF h, of "drop 50"] by (simp add: drop_map)
  have "list_all (\<lambda>i. find_message (messages s') i = None)
          (map msg_id (take 50 (ledger_history s0 evs)))"
    using f unfolding len by (simp add: list_all_iff)
  also have "map msg_id (take 50 (ledger_history s0 evs)) = map int [0..<50]"
    using arg_cong [OF h, of "take 50"] by (simp add: take_map)
  finally have f': "list_all (\<lambda>i. find_message (messages s') (int i) = None) [0..<50]"
    by (simp add: list_all_iff)
  from a b r l len m' f' show ?thesis
    unfolding s0_def evs_def by auto
qed


text \<open>
  Claim C3: the ledger holds at most 100 messages with FIFO eviction, so after 150
  appends it holds the newest 100, and \<^verbatim>\<open>find\<close> on any of the 50 oldest ids returns
  nothing. The bound and the eviction order hold (\<open>ledger_capacity\<close>), but an evicted id
  is still found when a newer message has the same id: of 150 messages sent two per
  millisecond, the 50th and the 51st both have id 25; the 50th is evicted, and
  \<^verbatim>\<open>find\<close> on 25 returns the 51st, now the oldest message of the ledger.
\<close>

theorem evicted_id_still_found:
  "\<exists>s' ds.
     run (init\<lparr>sockets := [(''A'', [''A''])]\<rparr>)
       (map (\<lambda>i. (''A'', SendMessage (int ((i + 1) div 2)) ''t''
                       \<lparr>md_message = ''hi'', md_room = None\<rparr>)) [0..<150]) = Inr (s', ds) \<and>
     length (messages s') = 100 \<and>
     map msg_id (messages s') = map (\<lambda>i. int ((i + 1) div 2)) [50..<150] \<and>
     find_message (messages s') 25 = Some (hd (messages s'))"
proof -
  define s0 where "s0 = init\<lparr>sockets := [(''A'', [''A''])]\<rparr>"
  define md where "md = \<lparr>md_message = ''hi'', md_room = None\<rparr>"
  define f where "f = (\<lambda>i. room_message s0 ''A'' (int ((i + 1) div 2)) ''t'' md)"
  define evs where
    "evs = map (\<lambda>i. (''A'', SendMessage (int ((i + 1) div 2)) ''t'' md)) [0..<150]"
  have a: "list_all (appends s0) evs"
    by (simp add: list_all_iff appends_def connected_def s0_def evs_def)
  have b: "length (messages s0) \<le> 100"
    by (simp add: s0_def init_def)
  have h: "ledger_history s0 evs = map f [0..<150]"
    by (simp add: ledger_history_def appended_def evs_def f_def map_concat comp_def)
       (simp add: s0_def init_def)
  from ledger_capacity [OF a b] obtain s' ds where
    r: "run s0 evs = Inr (s', ds)" and
    m: "messages s' = drop (length (ledger_history s0 evs) - 100) (ledger_history s0 evs)"
    by blast
  have m': "messages s' = map f [50..<150]"
    unfolding m h by (simp add: drop_map)
  have c: "[50..<150] = 50 # [51..<150]"
    by (simp add: upt_conv_Cons)
  have i: "msg_id (f i) = int ((i + 1) div 2)" for i
    by (simp add: f_def room_message_def)
  have "find_message (messages s') 25 = Some (hd (messages s'))"
    unfolding m' c by (simp add: find_message_def i)
  moreover have "map msg_id (messages s') = map (\<lambda>i. int ((i + 1) div 2)) [50..<150]"
    unfolding m' by (simp add: i)
  moreover have "length (messages s') = 100"
    unfolding m' by simp
  ultimately show ?thesis
    using r unfolding s0_def evs_def md_def by blast
qed

subsection \<open>Read receipts\<close>

lemma find_update_first:
  "find P xs = Some x \<Longrightarrow> P y \<Longrightarrow> find P (update_first P (\<lambda>_. y) xs) = Some y"
  by (induction xs) (auto split: if_splits)

lemma update_first_same: "find P xs = Some x \<Longrightarrow> update_first P (\<lambda>_. x) xs = xs"
  by (induction xs) (auto split: if_splits)

lemma list_all_update_first:
  "list_all Q xs \<Longrightarrow> Q y \<Longrightarrow> list_all Q (update_first P (\<lambda>_. y) xs)"
  by (induction xs) auto

lemma list_all_push_bounded:
  "list_all Q ms \<Longrightarrow> Q m \<Longrightarrow> list_all Q (push_bounded ms m)"
  by (cases ms) (auto simp: push_bounded_def Let_def)

lemma find_message_Some: "find_message ms i = Some m \<Longrightarrow> m \<in> set ms \<and> msg_id m = i"
  by (auto simp: find_message_def find_Some_iff)

lemma read_message_readBy_distinct:
  assumes "readBy_distinct s" and "read_message s c i = Inr (s', ds)"
  shows "readBy_distinct s'"
proof (cases "find_message (messages s) i")
  case None
  with assms show ?thesis by (simp add: read_message_def)
next
  case (Some msg)
  with assms(1) have d: "distinct (readBy msg)"
    by (auto simp: readBy_distinct_def list_all_iff dest: find_message_Some)
  show ?thesis
  proof (cases "username_of s c")
    case None
    with assms Some show ?thesis by (simp add: read_message_def)
  next
    case u: (Some u)
    show ?thesis
    proof (cases "u \<noteq> [] \<and> Some u \<notin> set (readBy msg)")
      case False
      with assms Some u show ?thesis by (auto simp: read_message_def)
    next
      case True
      with assms(2) Some u have
        "messages s' = update_first (\<lambda>m. msg_id m = i)
           (\<lambda>_. msg\<lparr>readBy := readBy msg @ [Some u]\<rparr>) (messages s)"
        by (auto simp: read_message_def Let_def)
      moreover have "distinct (readBy (msg\<lparr>readBy := readBy msg @ [Some u]\<rparr>))"
        using d True by simp
      ultimately show ?thesis
        using assms(1) unfolding readBy_distinct_def
        by (simp add: list_all_update_first)
    qed
  qed
qed

lemma react_message_readBy_distinct:
  assumes "readBy_distinct s" and "react_message s c i reaction name = Inr (s', ds)"
  shows "readBy_distinct s'"
proof (cases "find_message (messages s) i")
  case None
  with assms show ?thesis by (simp add: react_message_def)
next
  case (Some msg)
  with assms(1) have d: "distinct (readBy msg)"
    by (auto simp: readBy_distinct_def list_all_iff dest: find_message_Some)
  from assms(2) Some obtain rs where
    "messages s' = update_first (\<lambda>m. msg_id m = i)
       (\<lambda>_. msg\<lparr>reactions := Some rs\<rparr>) (messages s)"
    by (auto simp: react_message_def Let_def split: if_splits)
  moreover have "distinct (readBy (msg\<lparr>reactions := Some rs\<rparr>))"
    using d by simp
  ultimately show ?thesis
    using assms(1) unfolding readBy_distinct_def
    by (simp add: list_all_update_first)
qed

lemma dispatch_readBy_distinct:
  assumes "readBy_distinct s" and "dispatch s ce = Inr (s', ds)"
  shows "readBy_distinct s'"
proof (cases ce)
  case (Pair c ev)
  show ?thesis
  proof (cases "c \<in> set (connected s)")
    case False
    with assms Pair show ?thesis
      by (cases ev) (auto simp: dispatch_def readBy_distinct_def)
  next
    case True
    show ?thesis
    proof (cases ev)
      case (ReadMessage i)
      with assms Pair True show ?thesis
        by (auto simp: dispatch_def dest: read_message_readBy_distinct)
    next
      case (ReactMessage i reaction name)
      with assms Pair True show ?thesis
        by (auto simp: dispatch_def dest: react_message_readBy_distinct)
    next
      case (SendMessage now stamp md)
      with assms Pair True show ?thesis
        by (auto simp: dispatch_def send_message_def readBy_distinct_def Let_def
            room_message_def intro!: list_all_push_bounded)
    next
      case (PrivateMessage now stamp to body)
      with assms Pair True show ?thesis
        by (auto simp: dispatch_def private_message_def readBy_distinct_def Let_def
            private_message_data_def intro!: list_all_push_bounded)
    qed (use assms Pair True in \<open>auto simp: dispatch_def user_join_def join_room_def
           typing_def disconnect_def readBy_distinct_def Let_def split: option.splits\<close>)
  qed
qed

lemma run_readBy_distinct:
  "readBy_distinct s \<Longrightarrow> run s evs = Inr (s', ds) \<Longrightarrow> readBy_distinct s'"
proof (induction evs arbitrary: s ds)
  case Nil
  then show ?case by simp
next
  case (Cons e evs)
  then show ?case
    by (auto split: sum.splits prod.splits dest: dispatch_readBy_distinct)
qed

lemma readBy_distinct_init: "readBy_distinct init"
  by (simp add: readBy_distinct_def init_def)

lemma count_list_distinct: "distinct xs \<Longrightarrow> x \<in> set xs \<Longrightarrow> count_list xs x = 1"
  by (induction xs) auto

text \<open>
  Claim C6: \<^verbatim>\<open>read_message\<close> is idempotent per user name. In every state that a run of
  events reaches, for a registered reader and a message id: when no message has the id,
  the event changes nothing and sends nothing; otherwise the first event adds the user
  name to \<open>readBy\<close> of the message unless it is already there, the second event changes
  nothing and sends nothing, and \<open>readBy\<close> then holds the user name exactly once. (The
  empty string is no user name: line 118 treats it like a missing user, so it is never
  added, and never duplicated either.)
\<close>

theorem read_message_idempotent:
  assumes "run init evs = Inr (s, ds0)" and "map_of (users s) c = Some u"
  shows "(find_message (messages s) i = None \<longrightarrow> read_message s c i = Inr (s, [])) \<and>
         (\<forall>msg. find_message (messages s) i = Some msg \<longrightarrow>
            (\<exists>s1 ds1 msg1.
               read_message s c i = Inr (s1, ds1) \<and>
               read_message s1 c i = Inr (s1, []) \<and>
               find_message (messages s1) i = Some msg1 \<and>
               count_list (readBy msg1) (Some (username u)) \<le> 1 \<and>
               (username u \<noteq> [] \<longrightarrow> count_list (readBy msg1) (Some (username u)) = 1) \<and>
               readBy msg1 =
                 (if username u \<noteq> [] \<and> Some (username u) \<notin> set (readBy msg)
                  then readBy msg @ [Some (username u)] else readBy msg)))"
proof (intro conjI allI impI)
  assume "find_message (messages s) i = None"
  then show "read_message s c i = Inr (s, [])"
    by (simp add: read_message_def)
next
  fix msg
  assume f: "find_message (messages s) i = Some msg"
  have "readBy_distinct s"
    using run_readBy_distinct [OF readBy_distinct_init assms(1)] .
  with f have d: "distinct (readBy msg)"
    by (auto simp: readBy_distinct_def list_all_iff dest: find_message_Some)
  have un: "username_of s c = Some (username u)"
    using assms(2) by (simp add: username_of_def)
  show "\<exists>s1 ds1 msg1.
          read_message s c i = Inr (s1, ds1) \<and>
          read_message s1 c i = Inr (s1, []) \<and>
          find_message (messages s1) i = Some msg1 \<and>
          count_list (readBy msg1) (Some (username u)) \<le> 1 \<and>
          (username u \<noteq> [] \<longrightarrow> count_list (readBy msg1) (Some (username u)) = 1) \<and>
          readBy msg1 =
            (if username u \<noteq> [] \<and> Some (username u) \<notin> set (readBy msg)
             then readBy msg @ [Some (username u)] else readBy msg)"
  proof (cases "username u \<noteq> [] \<and> Some (username u) \<notin> set (readBy msg)")
    case False
    then have r: "read_message s c i = Inr (s, [])"
      using f un by (auto simp: read_message_def)
    have "count_list (readBy msg) (Some (username u)) \<le> 1"
      using d by (cases "Some (username u) \<in> set (readBy msg)")
        (simp_all add: count_list_distinct count_list_0_iff)
    moreover have "count_list (readBy msg) (Some (username u)) = 1" if "username u \<noteq> []"
      using that False d by (simp add: count_list_distinct)
    ultimately show ?thesis
      using r f False by (intro exI [of _ s] exI [of _ msg] exI [of _ "[]"]) auto
  next
    case True
    let ?msg' = "msg\<lparr>readBy := readBy msg @ [Some (username u)]\<rparr>"
    let ?s1 = "s\<lparr>messages := update_first (\<lambda>m. msg_id m = i) (\<lambda>_. ?msg') (messages s)\<rparr>"
    have i: "msg_id ?msg' = i"
      using f by (auto dest: find_message_Some)
    have f1: "find_message (messages ?s1) i = Some ?msg'"
      using f i by (simp add: find_message_def find_update_first)
    have r1: "read_message s c i =
                Inr (?s1, notify_read ?s1 ?msg' (MessageRead i (readBy ?msg')))"
      using f un True by (simp add: read_message_def Let_def)
    have un1: "username_of ?s1 c = Some (username u)"
      using assms(2) by (simp add: username_of_def)
    have r2: "read_message ?s1 c i = Inr (?s1, [])"
      using f1 un1 by (simp add: read_message_def)
    have c: "count_list (readBy ?msg') (Some (username u)) = 1"
      using d True by (simp add: count_list_distinct)
    from r1 r2 f1 c True show ?thesis
      by (intro exI [of _ ?s1] exI [of _ ?msg'] exI) simp
  qed
qed

theorem read_message_idempotent_witness:
  "\<exists>s ds0 u.
     run init
       [(''A'', Connect), (''A'', UserJoin ''alice''), (''B'', Connect), (''B'', UserJoin ''bob''),
        (''A'', SendMessage 1000 ''t'' \<lparr>md_message = ''hi'', md_room = None\<rparr>)] = Inr (s, ds0) \<and>
     map_of (users s) ''B'' = Some u \<and> username u \<noteq> [] \<and>
     read_message s ''B'' 7 = Inr (s, []) \<and>
     (\<exists>s1 ds1 msg1.
        read_message s ''B'' 1000 = Inr (s1, ds1) \<and>
        read_message s1 ''B'' 1000 = Inr (s1, []) \<and>
        find_message (messages s1) 1000 = Some msg1 \<and>
        count_list (readBy msg1) (Some ''bob'') = 1 \<and>
        readBy msg1 = [Some ''alice'', Some ''bob''])"
proof -
  obtain s ds0 u msg where
    r: "run init
       [(''A'', Connect), (''A'', UserJoin ''alice''), (''B'', Connect), (''B'', UserJoin ''bob''),
        (''A'', SendMessage 1000 ''t'' \<lparr>md_message = ''hi'', md_room = None\<rparr>)] = Inr (s, ds0)"
    and u: "map_of (users s) ''B'' = Some u" "username u = ''bob''"
    and f: "find_message (messages s) 1000 = Some msg" "readBy msg = [Some ''alice'']"
    and n: "find_message (messages s) 7 = None"
    by (simp add: handler_defs)
  from u have ne: "username u \<noteq> []" by simp
  from read_message_idempotent [OF r u(1), of 7] n
  have a: "read_message s ''B'' 7 = Inr (s, [])" by blast
  from read_message_idempotent [OF r u(1), of 1000] f u(2)
  have "\<exists>s1 ds1 msg1.
        read_message s ''B'' 1000 = Inr (s1, ds1) \<and>
        read_message s1 ''B'' 1000 = Inr (s1, []) \<and>
        find_message (messages s1) 1000 = Some msg1 \<and>
        count_list (readBy msg1) (Some ''bob'') = 1 \<and>
        readBy msg1 = [Some ''alice'', Some ''bob'']"
    by auto
  with r u(1) ne a show ?thesis by blast
qed

subsection \<open>Reactions\<close>

text \<open>
  Claim C7: \<^verbatim>\<open>react_message\<close> is idempotent for every message id, reaction symbol and
  user name. It is not for a symbol that names a member of \<^verbatim>\<open>Object.prototype\<close>: the
  first reaction \<^verbatim>\<open>constructor\<close> on a message throws, and no user name is recorded.
\<close>

theorem react_prototype_name_throws:
  "run init
     [(''A'', Connect), (''A'', UserJoin ''alice''),
      (''A'', SendMessage 1000 ''t'' \<lparr>md_message = ''hi'', md_room = None\<rparr>),
      (''A'', ReactMessage 1000 ''constructor'' ''alice'')] = Inl TypeError"
  by (simp add: handler_defs object_prototype_names_def)

text \<open>
  For every other symbol, and for a symbol that is already a key of the message's
  reactions, the handler is idempotent: the second event leaves the state as the first
  one left it, and the user name stands once under the symbol.
\<close>

lemma react_message_absent:
  "find_message (messages s) i = None \<Longrightarrow> react_message s c i reaction name = Inr (s, [])"
  by (simp add: react_message_def)

lemma react_message_idempotent:
  assumes f: "find_message (messages s) i = Some msg"
    and rs: "rs = (case reactions msg of None \<Rightarrow> Map.empty | Some x \<Rightarrow> x)"
    and ok: "rs reaction \<noteq> None \<or> reaction \<notin> set object_prototype_names"
    and l: "l = (case rs reaction of None \<Rightarrow> [] | Some x \<Rightarrow> x)"
    and d: "distinct l"
  shows "\<exists>s1 ds1 ds2 msg1 rs1.
           react_message s c i reaction name = Inr (s1, ds1) \<and>
           react_message s1 c i reaction name = Inr (s1, ds2) \<and>
           find_message (messages s1) i = Some msg1 \<and>
           reactions msg1 = Some rs1 \<and>
           rs1 reaction = Some (if name \<in> set l then l else l @ [name]) \<and>
           count_list (if name \<in> set l then l else l @ [name]) name = 1"
proof -
  define l1 where "l1 = (if name \<in> set l then l else l @ [name])"
  define rs1 where "rs1 = rs(reaction \<mapsto> l1)"
  define msg1 where "msg1 = msg\<lparr>reactions := Some rs1\<rparr>"
  define s1 where
    "s1 = s\<lparr>messages := update_first (\<lambda>m. msg_id m = i) (\<lambda>_. msg1) (messages s)\<rparr>"
  have mem: "name \<in> set l1"
    by (simp add: l1_def)
  have i: "msg_id msg1 = i"
    using f by (auto simp: msg1_def dest: find_message_Some)
  have f1: "find_message (messages s1) i = Some msg1"
    using f i by (simp add: s1_def find_message_def find_update_first)
  have r1: "react_message s c i reaction name =
              Inr (s1, notify_reacted s1 msg1 (MessageReacted i rs1))"
    using f ok by (auto simp: react_message_def Let_def rs l s1_def msg1_def rs1_def l1_def)
  have same: "update_first (\<lambda>m. msg_id m = i) (\<lambda>_. msg1) (messages s1) = messages s1"
    using f1 unfolding find_message_def by (rule update_first_same)
  have rs1: "reactions msg1 = Some rs1" "rs1 reaction = Some l1"
    by (simp_all add: msg1_def rs1_def)
  have e1: "rs1(reaction \<mapsto> l1) = rs1"
    by (simp add: rs1_def)
  have e2: "msg1\<lparr>reactions := Some rs1\<rparr> = msg1"
    by (simp add: msg1_def)
  have e3: "s1\<lparr>messages := messages s1\<rparr> = s1"
    by simp
  let ?m2 = "msg1\<lparr>reactions := Some (rs1(reaction \<mapsto> l1))\<rparr>"
  let ?s2 = "s1\<lparr>messages := update_first (\<lambda>m. msg_id m = i) (\<lambda>_. ?m2) (messages s1)\<rparr>"
  have "react_message s1 c i reaction name =
          Inr (?s2, notify_reacted ?s2 ?m2 (MessageReacted i (rs1(reaction \<mapsto> l1))))"
    unfolding react_message_def f1 using rs1 mem by (simp add: Let_def)
  then have r2: "react_message s1 c i reaction name =
              Inr (s1, notify_reacted s1 msg1 (MessageReacted i rs1))"
    by (simp only: e1 e2 same e3)
  have c: "count_list l1 name = 1"
    using d by (simp add: l1_def count_list_distinct)
  from r1 r2 f1 rs1 c show ?thesis
    unfolding l1_def by blast
qed

subsection \<open>References that do not resolve\<close>

lemma delete_absent: "map_of al k = None \<Longrightarrow> AList.delete k al = al"
  by (induction al) (auto split: if_splits)

text \<open>
  The lookups of the user, of the room membership and of the message are guarded. Every
  handler but \<^verbatim>\<open>react_message\<close> returns normally in every state. A connection that is
  not in the user registry sends as \<^verbatim>\<open>Anonymous\<close>; a message without a room argument
  from a connection without room membership goes to \<^verbatim>\<open>General\<close>; \<^verbatim>\<open>typing\<close> of an
  unregistered connection, \<^verbatim>\<open>read_message\<close> of an unregistered connection or of an id
  that is not in the ledger, and \<^verbatim>\<open>react_message\<close> of an id that is not in the ledger
  change nothing and send nothing; \<^verbatim>\<open>disconnect\<close> of an unregistered connection
  leaves the registry as it is and announces no departure.
\<close>

lemma stale_references_safe:
  "(\<exists>s' ds. user_join s c name = Inr (s', ds)) \<and>
   (\<exists>s' ds. join_room s c r = Inr (s', ds)) \<and>
   (\<exists>s' ds m. send_message s c now stamp md = Inr (s', ds) \<and> last (messages s') = m \<and>
      (map_of (users s) c = None \<longrightarrow> sender m = ''Anonymous'') \<and>
      (md_room md = None \<and> map_of (userRooms s) c = None \<longrightarrow> room m = Some ''General'')) \<and>
   (\<exists>s' ds m. private_message s c now stamp to body = Inr (s', ds) \<and>
      last (messages s') = m \<and>
      (map_of (users s) c = None \<longrightarrow> sender m = ''Anonymous'')) \<and>
   (\<exists>s' ds. typing s c b = Inr (s', ds) \<and>
      (map_of (users s) c = None \<longrightarrow> s' = s \<and> ds = [])) \<and>
   (\<exists>s' ds. read_message s c i = Inr (s', ds) \<and>
      (find_message (messages s) i = None \<or> map_of (users s) c = None \<longrightarrow>
         s' = s \<and> ds = [])) \<and>
   (find_message (messages s) i = None \<longrightarrow>
      react_message s c i reaction name = Inr (s, [])) \<and>
   (\<exists>s' ds. disconnect s c = Inr (s', ds) \<and>
      (map_of (users s) c = None \<longrightarrow>
         users s' = users s \<and>
         ds = [io_emit s' (UserList (map snd (users s))),
               io_emit s' (TypingUsers (map snd (typingUsers s')))]))"
proof (intro conjI)
  show "\<exists>s' ds. user_join s c name = Inr (s', ds)"
    by (simp add: user_join_def Let_def)
  show "\<exists>s' ds. join_room s c r = Inr (s', ds)"
    by (simp add: join_room_def Let_def)
  show "\<exists>s' ds m. send_message s c now stamp md = Inr (s', ds) \<and> last (messages s') = m \<and>
      (map_of (users s) c = None \<longrightarrow> sender m = ''Anonymous'') \<and>
      (md_room md = None \<and> map_of (userRooms s) c = None \<longrightarrow> room m = Some ''General'')"
    by (simp add: send_message_def Let_def last_push_bounded room_message_def username_of_def
        resolve_room_def js_or_def)
  show "\<exists>s' ds m. private_message s c now stamp to body = Inr (s', ds) \<and>
      last (messages s') = m \<and>
      (map_of (users s) c = None \<longrightarrow> sender m = ''Anonymous'')"
    by (simp add: private_message_def Let_def last_push_bounded private_message_data_def
        username_of_def js_or_def)
  show "\<exists>s' ds. typing s c b = Inr (s', ds) \<and>
      (map_of (users s) c = None \<longrightarrow> s' = s \<and> ds = [])"
    by (simp add: typing_def Let_def split: option.splits)
  show "\<exists>s' ds. read_message s c i = Inr (s', ds) \<and>
      (find_message (messages s) i = None \<or> map_of (users s) c = None \<longrightarrow>
         s' = s \<and> ds = [])"
    by (auto simp: read_message_def Let_def username_of_def split: option.splits)
  show "find_message (messages s) i = None \<longrightarrow>
      react_message s c i reaction name = Inr (s, [])"
    by (simp add: react_message_def)
  show "\<exists>s' ds. disconnect s c = Inr (s', ds) \<and>
      (map_of (users s) c = None \<longrightarrow>
         users s' = users s \<and>
         ds = [io_emit s' (UserList (map snd (users s))),
               io_emit s' (TypingUsers (map snd (typingUsers s')))])"
    by (simp add: disconnect_def Let_def delete_absent)
qed

lemma stale_references_safe_example:
  "map_of (users init) ''A'' = None \<and> map_of (userRooms init) ''A'' = None \<and>
   find_message (messages init) 7 = None \<and>
   (\<exists>s' ds m. send_message init ''A'' 5 ''t'' \<lparr>md_message = ''hi'', md_room = None\<rparr> = Inr (s', ds) \<and>
      last (messages s') = m \<and> sender m = ''Anonymous'' \<and> room m = Some ''General'') \<and>
   (\<exists>s' ds m. private_message init ''A'' 5 ''t'' ''B'' ''hi'' = Inr (s', ds) \<and>
      last (messages s') = m \<and> sender m = ''Anonymous'') \<and>
   typing init ''A'' True = Inr (init, []) \<and>
   read_message init ''A'' 7 = Inr (init, []) \<and>
   react_message init ''A'' 7 ''constructor'' ''alice'' = Inr (init, []) \<and>
   (\<exists>s' ds. disconnect init ''A'' = Inr (s', ds) \<and> users s' = users init \<and> length ds = 2)"
proof -
  have h: "map_of (users init) ''A'' = None" "map_of (userRooms init) ''A'' = None"
    "find_message (messages init) 7 = None"
    "md_room \<lparr>md_message = ''hi'', md_room = None\<rparr> = None"
    by (simp_all add: init_def find_message_def)
  from stale_references_safe [where s = init and c = "''A''" and now = 5 and stamp = "''t''"
      and md = "\<lparr>md_message = ''hi'', md_room = None\<rparr>" and to = "''B''" and body = "''hi''"
      and b = True and i = 7 and reaction = "''constructor''" and name = "''alice''" and r = "''Tech''"] h
  show ?thesis
    by (auto simp del: messageData.simps)
qed

text \<open>
  Claim C9: every event handler is total and never raises an error, whatever reference
  of the event fails to resolve. The lookup of the reaction symbol in the reactions of a
  message is not guarded like the others: connection \<^verbatim>\<open>B\<close>, which is not in the user
  registry, reacts with the symbol \<^verbatim>\<open>toString\<close> to a stored message, and the handler
  raises a \<^verbatim>\<open>TypeError\<close>.
\<close>

theorem react_unregistered_throws:
  "(case run init
      [(''A'', Connect), (''A'', UserJoin ''alice''),
       (''A'', SendMessage 1000 ''t'' \<lparr>md_message = ''hi'', md_room = None\<rparr>),
       (''B'', Connect)] of
      Inl e \<Rightarrow> False
    | Inr (s, ds) \<Rightarrow>
        map_of (users s) ''B'' = None \<and>
        map msg_id (messages s) = [1000] \<and>
        react_message s ''B'' 1000 ''toString'' ''bob'' = Inl TypeError) \<and>
   run init
     [(''A'', Connect), (''A'', UserJoin ''alice''),
      (''A'', SendMessage 1000 ''t'' \<lparr>md_message = ''hi'', md_room = None\<rparr>),
      (''B'', Connect),
      (''B'', ReactMessage 1000 ''toString'' ''bob'')] = Inl TypeError"
  by (simp add: handler_defs object_prototype_names_def)

subsection \<open>Disconnection\<close>

lemma map_fst_socket_join [simp]: "map fst (socket_join c r socks) = map fst socks"
  by (induction socks) (auto simp: socket_join_def)

lemma map_fst_socket_leave [simp]: "map fst (socket_leave c r socks) = map fst socks"
  by (induction socks) (auto simp: socket_leave_def)

lemma in_room_connected: "d \<in> set (in_room s r) \<Longrightarrow> d \<in> set (connected s)"
  by (auto simp: in_room_def connected_def)

lemma list_all_update: "list_all P al \<Longrightarrow> P (k, v) \<Longrightarrow> list_all P (AList.update k v al)"
  by (induction al) auto

lemma list_all_delete: "list_all P al \<Longrightarrow> list_all P (AList.delete k al)"
  by (induction al) auto

lemma map_of_delete_same [simp]: "map_of (AList.delete k al) k = None"
  by (simp add: delete_conv')

lemma keyed_absent:
  "list_all (\<lambda>(k, u). user_id u = k) al \<Longrightarrow> map_of al c = None \<Longrightarrow>
   c \<notin> (\<lambda>x. user_id (snd x)) ` set al"
  by (induction al) (auto split: if_splits)

lemma absent_user_list:
  "users_keyed s \<Longrightarrow> map_of (users s) c = None \<Longrightarrow>
   c \<notin> (\<lambda>x. user_id (snd x)) ` set (users s)"
  unfolding users_keyed_def by (rule keyed_absent)

lemma passes_by_io_emit:
  "passes_by c (io_emit s n) =
     (c \<notin> set (connected s) \<and>
      (case n of UserList us \<Rightarrow> c \<notin> set (map user_id us) | _ \<Rightarrow> True))"
  by (simp add: passes_by_def io_emit_def)

lemma passes_by_io_to_emit:
  "c \<notin> set (connected s) \<Longrightarrow>
   passes_by c (io_to_emit s r n) =
     (case n of UserList us \<Rightarrow> c \<notin> set (map user_id us) | _ \<Rightarrow> True)"
  by (auto simp: passes_by_def io_to_emit_def dest: in_room_connected)

lemma passes_by_notify_read:
  "c \<notin> set (connected s) \<Longrightarrow> list_all (passes_by c) (notify_read s m (MessageRead i rb))"
  by (simp add: notify_read_def passes_by_io_to_emit split: option.splits)

lemma passes_by_notify_reacted:
  "c \<notin> set (connected s) \<Longrightarrow> list_all (passes_by c) (notify_reacted s m (MessageReacted i rs))"
  by (simp add: notify_reacted_def passes_by_io_to_emit passes_by_io_emit split: option.splits)

lemma user_join_absent:
  assumes "absent c s" and "d \<noteq> c" and "user_join s d name = Inr (s', ds)"
  shows "absent c s' \<and> list_all (passes_by c) ds"
proof -
  let ?u = "\<lparr>username = name, user_id = d\<rparr>"
  from assms(3) have s': "users s' = AList.update d ?u (users s)"
    "connected s' = connected s"
    and ds: "ds = [io_emit s' (UserList (map snd (users s'))), io_emit s' (UserJoined ?u)]"
    by (auto simp: user_join_def Let_def connected_def)
  from assms(1) have k: "users_keyed s'"
    unfolding absent_def users_keyed_def s' by (auto intro: list_all_update)
  from assms(1,2) have n: "map_of (users s') c = None"
    by (simp add: absent_def s' update_conv')
  from assms(1) have c: "c \<notin> set (connected s')"
    by (simp add: absent_def s')
  from k n c show ?thesis
    unfolding ds by (simp add: absent_def passes_by_io_emit absent_user_list)
qed

lemma join_room_absent:
  assumes "absent c s" and "join_room s d r = Inr (s', ds)"
  shows "absent c s' \<and> list_all (passes_by c) ds"
proof -
  from assms(2) have "users s' = users s" "connected s' = connected s" "ds = []"
    by (auto simp: join_room_def Let_def connected_def split: option.splits if_splits)
  with assms(1) show ?thesis
    by (simp add: absent_def users_keyed_def)
qed

lemma send_message_absent:
  assumes "absent c s" and "send_message s d now stamp md = Inr (s', ds)"
  shows "absent c s' \<and> list_all (passes_by c) ds"
proof -
  from assms(2) obtain m where "users s' = users s" "connected s' = connected s"
    and ds: "ds = [io_to_emit s' (resolve_room s d md) (ReceiveMessage m)]"
    by (auto simp: send_message_def Let_def connected_def)
  with assms(1) show ?thesis
    by (simp add: absent_def users_keyed_def passes_by_io_to_emit)
qed

lemma typing_absent:
  assumes "absent c s" and "typing s d b = Inr (s', ds)"
  shows "absent c s' \<and> list_all (passes_by c) ds"
proof (cases "map_of (users s) d")
  case None
  with assms show ?thesis by (simp add: typing_def)
next
  case (Some u)
  with assms(2) have "users s' = users s" "connected s' = connected s"
    and ds: "ds = [io_emit s' (TypingUsers (map snd (typingUsers s')))]"
    by (auto simp: typing_def Let_def connected_def)
  with assms(1) show ?thesis
    by (simp add: absent_def users_keyed_def passes_by_io_emit)
qed

lemma private_message_absent:
  assumes "absent c s" and "d \<noteq> c" and "private_message s d now stamp to body = Inr (s', ds)"
  shows "absent c s' \<and> list_all (passes_by c) ds"
proof -
  from assms(3) obtain m where "users s' = users s" "connected s' = connected s"
    and ds: "ds = [socket_to_emit s d to (PrivateMessageN m), socket_emit d (PrivateMessageN m)]"
    by (auto simp: private_message_def Let_def connected_def)
  with assms(1,2) show ?thesis
    by (auto simp: absent_def users_keyed_def passes_by_def socket_to_emit_def socket_emit_def
        dest: in_room_connected)
qed

lemma read_message_absent:
  assumes "absent c s" and "read_message s d i = Inr (s', ds)"
  shows "absent c s' \<and> list_all (passes_by c) ds"
proof -
  from assms(2) have
    "s' = s \<and> ds = [] \<or>
     (\<exists>ms m rb. s' = s\<lparr>messages := ms\<rparr> \<and> ds = notify_read s' m (MessageRead i rb))"
    by (auto simp: read_message_def Let_def split: option.splits if_splits)
  then show ?thesis
  proof (elim disjE conjE exE)
    assume "s' = s" "ds = []"
    with assms(1) show ?thesis by simp
  next
    fix ms m rb
    assume s': "s' = s\<lparr>messages := ms\<rparr>" and ds: "ds = notify_read s' m (MessageRead i rb)"
    from assms(1) have a: "absent c s'"
      by (simp add: s' absent_def users_keyed_def connected_def)
    then have "c \<notin> set (connected s')" by (simp add: absent_def)
    with a show ?thesis unfolding ds by (simp add: passes_by_notify_read)
  qed
qed

lemma react_message_absent_conn:
  assumes "absent c s" and "react_message s d i reaction name = Inr (s', ds)"
  shows "absent c s' \<and> list_all (passes_by c) ds"
proof -
  from assms(2) have
    "s' = s \<and> ds = [] \<or>
     (\<exists>ms m rs. s' = s\<lparr>messages := ms\<rparr> \<and> ds = notify_reacted s' m (MessageReacted i rs))"
    by (auto simp: react_message_def Let_def split: option.splits if_splits)
  then show ?thesis
  proof (elim disjE conjE exE)
    assume "s' = s" "ds = []"
    with assms(1) show ?thesis by simp
  next
    fix ms m rs
    assume s': "s' = s\<lparr>messages := ms\<rparr>" and ds: "ds = notify_reacted s' m (MessageReacted i rs)"
    from assms(1) have a: "absent c s'"
      by (simp add: s' absent_def users_keyed_def connected_def)
    then have "c \<notin> set (connected s')" by (simp add: absent_def)
    with a show ?thesis unfolding ds by (simp add: passes_by_notify_reacted)
  qed
qed

lemma disconnect_absent:
  assumes "users_keyed s" and "c \<notin> set (connected s)"
    and "map_of (users s) c = None \<or> d = c"
    and "disconnect s d = Inr (s', ds)"
  shows "absent c s' \<and> list_all (passes_by c) ds"
proof -
  from assms(4) have s': "users s' = AList.delete d (users s)" "connected s' = connected s"
    and ds: "\<exists>pre. list_all (passes_by c) pre \<and>
               ds = pre @ [io_emit s' (UserList (map snd (users s'))),
                           io_emit s' (TypingUsers (map snd (typingUsers s')))]"
    using assms(2)
    by (auto simp: disconnect_def Let_def connected_def passes_by_def io_emit_def
        split: option.splits)
  from assms(1) have k: "users_keyed s'"
    unfolding users_keyed_def s' by (rule list_all_delete)
  from assms(3) have n: "map_of (users s') c = None"
    by (auto simp: s' delete_conv')
  from assms(2) have c: "c \<notin> set (connected s')"
    by (simp add: s')
  from ds k n c show ?thesis
    by (auto simp: absent_def passes_by_io_emit absent_user_list)
qed

lemma dispatch_absent:
  assumes "absent c s" and "ce \<noteq> (c, Connect)" and "dispatch s ce = Inr (s', ds)"
  shows "absent c s' \<and> list_all (passes_by c) ds"
proof (cases ce)
  case (Pair d ev)
  show ?thesis
  proof (cases "d \<in> set (connected s)")
    case False
    with assms Pair show ?thesis
      by (cases ev) (auto simp: dispatch_def absent_def users_keyed_def connected_def)
  next
    case True
    with assms(1) have dc: "d \<noteq> c"
      by (auto simp: absent_def)
    show ?thesis
    proof (cases ev)
      case Connect
      with assms Pair True show ?thesis by (simp add: dispatch_def)
    next
      case (UserJoin name)
      with assms Pair True dc show ?thesis
        by (simp add: dispatch_def user_join_absent)
    next
      case (JoinRoom r)
      with assms Pair True show ?thesis
        by (simp add: dispatch_def join_room_absent)
    next
      case (SendMessage now stamp md)
      with assms Pair True show ?thesis
        by (simp add: dispatch_def send_message_absent)
    next
      case (Typing b)
      with assms Pair True show ?thesis
        by (simp add: dispatch_def typing_absent)
    next
      case (PrivateMessage now stamp to body)
      with assms Pair True dc show ?thesis
        by (simp add: dispatch_def private_message_absent)
    next
      case (ReadMessage i)
      with assms Pair True show ?thesis
        by (simp add: dispatch_def read_message_absent)
    next
      case (ReactMessage i reaction name)
      with assms Pair True show ?thesis
        by (simp add: dispatch_def react_message_absent_conn)
    next
      case Disconnect
      let ?s = "s\<lparr>sockets := AList.delete d (sockets s)\<rparr>"
      from assms(1) have "users_keyed ?s" "c \<notin> set (connected ?s)" "map_of (users ?s) c = None"
        by (auto simp: absent_def users_keyed_def connected_def delete_keys)
      moreover from assms(3) Pair True Disconnect have "disconnect ?s d = Inr (s', ds)"
        by (simp add: dispatch_def)
      ultimately show ?thesis
        by (intro disconnect_absent [of ?s c d]) simp_all
    qed
  qed
qed

lemma run_absent:
  "absent c s \<Longrightarrow> (c, Connect) \<notin> set evs \<Longrightarrow> run s evs = Inr (s', ds) \<Longrightarrow>
   absent c s' \<and> list_all (passes_by c) ds"
proof (induction evs arbitrary: s ds)
  case Nil
  then show ?case by simp
next
  case (Cons e evs)
  from Cons.prems(3) obtain s1 ds1 ds2 where
    d: "dispatch s e = Inr (s1, ds1)" and r: "run s1 evs = Inr (s', ds2)" and ds: "ds = ds1 @ ds2"
    by (auto split: sum.splits prod.splits)
  from Cons.prems(2) have ne: "e \<noteq> (c, Connect)" and rest: "(c, Connect) \<notin> set evs"
    by auto
  from dispatch_absent [OF Cons.prems(1) ne d] have a1: "absent c s1" and p1: "list_all (passes_by c) ds1"
    by simp_all
  from Cons.IH [OF a1 rest r] p1 ds show ?case
    by simp
qed


lemma dispatch_users_keyed:
  assumes "users_keyed s" and "dispatch s ce = Inr (s', ds)"
  shows "users_keyed s'"
proof (cases ce)
  case (Pair d ev)
  show ?thesis
  proof (cases "d \<in> set (connected s)")
    case False
    with assms Pair show ?thesis
      by (cases ev) (auto simp: dispatch_def users_keyed_def)
  next
    case True
    show ?thesis
    proof (cases ev)
      case (UserJoin name)
      with assms Pair True show ?thesis
        by (auto simp: dispatch_def user_join_def Let_def users_keyed_def list_all_update)
    next
      case Disconnect
      with assms Pair True show ?thesis
        by (auto simp: dispatch_def disconnect_def Let_def users_keyed_def list_all_delete)
    next
      case (ReadMessage i)
      with assms(2) Pair True have "users s' = users s"
        by (auto simp: dispatch_def read_message_def Let_def split: option.splits if_splits)
      with assms(1) show ?thesis by (simp add: users_keyed_def)
    next
      case (ReactMessage i reaction name)
      with assms(2) Pair True have "users s' = users s"
        by (auto simp: dispatch_def react_message_def Let_def split: option.splits if_splits)
      with assms(1) show ?thesis by (simp add: users_keyed_def)
    next
      case (Typing b)
      with assms(2) Pair True have "users s' = users s"
        by (auto simp: dispatch_def typing_def Let_def split: option.splits)
      with assms(1) show ?thesis by (simp add: users_keyed_def)
    qed (use assms Pair True in \<open>auto simp: dispatch_def join_room_def send_message_def
           private_message_def users_keyed_def Let_def\<close>)
  qed
qed

lemma run_users_keyed:
  "users_keyed s \<Longrightarrow> run s evs = Inr (s', ds) \<Longrightarrow> users_keyed s'"
proof (induction evs arbitrary: s ds)
  case Nil
  then show ?case by simp
next
  case (Cons e evs)
  then show ?case
    by (auto split: sum.splits prod.splits dest: dispatch_users_keyed)
qed

lemma users_keyed_init: "users_keyed init"
  by (simp add: users_keyed_def init_def)

text \<open>
  Claim C5: after the \<^verbatim>\<open>disconnect\<close> event of a connection, in any state that a run of
  events reaches, the user registry, the room membership and the typing tracker have no
  entry for it, and the ledger is as it was; the event ends with the presence list and the typing list of the stores
  without that entry, sent to the remaining connections; and as long as the connection id
  does not connect again, no later presence list contains it.
\<close>

theorem disconnect_cleanup:
  assumes "run init evs0 = Inr (s, ds0)" and "c \<in> set (connected s)"
  shows "\<exists>s' ds pre.
           dispatch s (c, Disconnect) = Inr (s', ds) \<and>
           map_of (users s') c = None \<and>
           map_of (userRooms s') c = None \<and>
           map_of (typingUsers s') c = None \<and>
           c \<notin> set (connected s') \<and>
           messages s' = messages s \<and>
           ds = pre @ [(connected s', UserList (map snd (users s'))),
                       (connected s', TypingUsers (map snd (typingUsers s')))] \<and>
           list_all (passes_by c) ds \<and>
           (\<forall>evs s'' ds'. (c, Connect) \<notin> set evs \<and> run s' evs = Inr (s'', ds') \<longrightarrow>
              map_of (users s'') c = None \<and> list_all (passes_by c) ds')"
proof -
  let ?s = "s\<lparr>sockets := AList.delete c (sockets s)\<rparr>"
  have k: "users_keyed s"
    using run_users_keyed [OF users_keyed_init assms(1)] .
  then have k': "users_keyed ?s"
    by (simp add: users_keyed_def)
  have nc: "c \<notin> set (connected ?s)"
    by (simp add: connected_def delete_keys)
  obtain s' ds where d: "disconnect ?s c = Inr (s', ds)"
    by (simp add: disconnect_def Let_def)
  then have disp: "dispatch s (c, Disconnect) = Inr (s', ds)"
    using assms(2) by (simp add: dispatch_def)
  from disconnect_absent [OF k' nc _ d] have a: "absent c s'" and p: "list_all (passes_by c) ds"
    by simp_all
  from d have stores: "map_of (userRooms s') c = None" "map_of (typingUsers s') c = None"
    "messages s' = messages s"
    and ds: "\<exists>pre. ds = pre @ [(connected s', UserList (map snd (users s'))),
                                (connected s', TypingUsers (map snd (typingUsers s')))]"
    by (auto simp: disconnect_def Let_def io_emit_def)
  from a have u: "map_of (users s') c = None" and c: "c \<notin> set (connected s')"
    by (simp_all add: absent_def)
  have later: "map_of (users s'') c = None \<and> list_all (passes_by c) ds'"
    if "(c, Connect) \<notin> set evs" and "run s' evs = Inr (s'', ds')" for evs s'' ds'
    using run_absent [OF a that] by (simp add: absent_def)
  from disp u stores c ds p later show ?thesis
    by blast
qed


theorem disconnect_cleanup_witness:
  "\<exists>s ds0.
     run init
       [(''A'', Connect), (''A'', UserJoin ''alice''), (''B'', Connect), (''B'', UserJoin ''bob''),
        (''A'', Typing True)] = Inr (s, ds0) \<and>
     ''A'' \<in> set (connected s) \<and>
     (\<exists>s' ds.
        dispatch s (''A'', Disconnect) = Inr (s', ds) \<and>
        map_of (users s') ''A'' = None \<and>
        map_of (userRooms s') ''A'' = None \<and>
        map_of (typingUsers s') ''A'' = None \<and>
        ds = [([''B''], UserLeft \<lparr>username = ''alice'', user_id = ''A''\<rparr>),
              ([''B''], UserList [\<lparr>username = ''bob'', user_id = ''B''\<rparr>]),
              ([''B''], TypingUsers [])] \<and>
        list_all (passes_by ''A'') ds \<and>
        (\<exists>s'' ds'.
           run s' [(''B'', UserJoin ''rob'')] = Inr (s'', ds') \<and>
           map_of (users s'') ''A'' = None \<and> list_all (passes_by ''A'') ds'))"
proof -
  obtain s ds0 s1 s2 d2 where
    r: "run init
       [(''A'', Connect), (''A'', UserJoin ''alice''), (''B'', Connect), (''B'', UserJoin ''bob''),
        (''A'', Typing True)] = Inr (s, ds0)"
    and c: "''A'' \<in> set (connected s)"
    and d: "dispatch s (''A'', Disconnect) =
              Inr (s1, [([''B''], UserLeft \<lparr>username = ''alice'', user_id = ''A''\<rparr>),
                        ([''B''], UserList [\<lparr>username = ''bob'', user_id = ''B''\<rparr>]),
                        ([''B''], TypingUsers [])])"
    and r2: "run s1 [(''B'', UserJoin ''rob'')] = Inr (s2, d2)"
    by (simp add: handler_defs)
  from disconnect_cleanup [OF r c] obtain s' ds where
    d': "dispatch s (''A'', Disconnect) = Inr (s', ds)"
    and stores: "map_of (users s') ''A'' = None" "map_of (userRooms s') ''A'' = None"
      "map_of (typingUsers s') ''A'' = None"
    and p: "list_all (passes_by ''A'') ds"
    and later: "\<And>evs s'' ds'. (''A'', Connect) \<notin> set evs \<Longrightarrow> run s' evs = Inr (s'', ds') \<Longrightarrow>
                  map_of (users s'') ''A'' = None \<and> list_all (passes_by ''A'') ds'"
    by blast
  from d d' have eq: "s' = s1"
    "ds = [([''B''], UserLeft \<lparr>username = ''alice'', user_id = ''A''\<rparr>),
           ([''B''], UserList [\<lparr>username = ''bob'', user_id = ''B''\<rparr>]),
           ([''B''], TypingUsers [])]"
    by simp_all
  have "(''A'', Connect) \<notin> set [(''B'', UserJoin ''rob'')]"
    by simp
  from later [OF this r2 [folded eq(1)]] have
    l: "map_of (users s2) ''A'' = None" "list_all (passes_by ''A'') d2"
    by simp_all
  from r c d' stores p eq(2) r2 [folded eq(1)] l show ?thesis
    by blast
qed

subsection \<open>Room messages\<close>

text \<open>
  Claim C2 says that a room message is delivered to exactly the connections whose room
  membership is the resolved room. Delivery goes to the transport room instead. First
  run: \<^verbatim>\<open>A\<close> names the room \<^verbatim>\<open>B\<close>, the id of another connection; no connection has
  that membership, and the message reaches \<^verbatim>\<open>B\<close>, whose membership is
  \<^verbatim>\<open>General\<close>. Second run: \<^verbatim>\<open>B\<close> joins \<^verbatim>\<open>Tech\<close> and then registers, which sets its
  membership to \<^verbatim>\<open>General\<close> without leaving the transport room; a message to
  \<^verbatim>\<open>Tech\<close> reaches \<^verbatim>\<open>B\<close>.
\<close>

theorem room_delivery_counterexample:
  "(case run init
      [(''A'', Connect), (''A'', UserJoin ''alice''), (''B'', Connect), (''B'', UserJoin ''bob''),
       (''A'', SendMessage 1000 ''t'' \<lparr>md_message = ''hi'', md_room = Some ''B''\<rparr>)] of
      Inl e \<Rightarrow> False
    | Inr (s, ds) \<Rightarrow>
        map_of (userRooms s) ''B'' = Some ''General'' \<and>
        membersOf s ''B'' = [] \<and>
        last ds = ([''B''], ReceiveMessage
          \<lparr>msg_id = 1000, sender = ''alice'', senderId = ''A'', message = ''hi'',
           timestamp = ''t'', room = Some ''B'', isPrivate = False,
           readBy = [Some ''alice''], reactions = None\<rparr>)) \<and>
   (case run init
      [(''A'', Connect), (''A'', UserJoin ''alice''), (''A'', JoinRoom ''Tech''),
       (''B'', Connect), (''B'', JoinRoom ''Tech''), (''B'', UserJoin ''bob''),
       (''A'', SendMessage 1000 ''t'' \<lparr>md_message = ''hi'', md_room = None\<rparr>)] of
      Inl e \<Rightarrow> False
    | Inr (s, ds) \<Rightarrow>
        map_of (userRooms s) ''B'' = Some ''General'' \<and>
        membersOf s ''Tech'' = [''A''] \<and>
        last ds = ([''A'', ''B''], ReceiveMessage
          \<lparr>msg_id = 1000, sender = ''alice'', senderId = ''A'', message = ''hi'',
           timestamp = ''t'', room = Some ''Tech'', isPrivate = False,
           readBy = [Some ''alice''], reactions = None\<rparr>))"
  by (simp add: handler_defs membersOf_def)

lemma in_room_synced:
  assumes "rooms_synced s"
  shows "in_room s r = filter (\<lambda>c. c = r \<or> map_of (userRooms s) c = Some r) (connected s)"
proof -
  have "(r \<in> set rs) = (c = r \<or> map_of (userRooms s) c = Some r)"
    if "(c, rs) \<in> set (sockets s)" for c rs
  proof -
    from assms that have "set rs = insert c (set_option (map_of (userRooms s) c))"
      by (auto simp: rooms_synced_def list_all_iff)
    then show ?thesis
      by (auto simp: elem_set)
  qed
  then have "filter (\<lambda>(c, rs). r \<in> set rs) (sockets s) =
        filter ((\<lambda>c. c = r \<or> map_of (userRooms s) c = Some r) \<circ> fst) (sockets s)"
    by (intro filter_cong refl) auto
  then show ?thesis
    by (simp add: in_room_def connected_def filter_map)
qed

lemma in_room_members:
  assumes "rooms_synced s" and "r \<notin> set (connected s)"
  shows "in_room s r = membersOf s r"
  unfolding in_room_synced [OF assms(1)] membersOf_def
  using assms(2) by (intro filter_cong refl) auto

lemma in_room_messages [simp]: "in_room (s\<lparr>messages := ms\<rparr>) r = in_room s r"
  by (simp add: in_room_def)

text \<open>
  Claim C2, amended: the resolved room is the room argument when it is a non-empty
  string, else the sender's room membership when that is a non-empty string, else
  \<^verbatim>\<open>General\<close>; \<open>readBy\<close> of the created message is exactly the user name of a
  registered sender; and the message is delivered to exactly the connections that have
  joined the transport room of that name. In a state where every connection has joined
  exactly its own id and its membership, these are the connections whose membership is
  the room, and the connection whose id is the room name if there is one.
\<close>

theorem send_message_routing:
  "\<exists>s' m. send_message s c now stamp md =
            Inr (s', [(in_room s (resolve_room s c md), ReceiveMessage m)]) \<and>
     last (messages s') = m \<and> room m = Some (resolve_room s c md) \<and>
     (\<forall>r. md_room md = Some r \<and> r \<noteq> [] \<longrightarrow> resolve_room s c md = r) \<and>
     (md_room md = None \<or> md_room md = Some [] \<longrightarrow>
        (\<forall>r. map_of (userRooms s) c = Some r \<and> r \<noteq> [] \<longrightarrow> resolve_room s c md = r) \<and>
        (map_of (userRooms s) c = None \<or> map_of (userRooms s) c = Some [] \<longrightarrow>
           resolve_room s c md = ''General'')) \<and>
     (\<forall>u. map_of (users s) c = Some u \<longrightarrow> readBy m = [Some (username u)]) \<and>
     (rooms_synced s \<longrightarrow>
        in_room s (resolve_room s c md) =
          filter (\<lambda>d. d = resolve_room s c md \<or>
                       map_of (userRooms s) d = Some (resolve_room s c md)) (connected s)) \<and>
     (rooms_synced s \<and> resolve_room s c md \<notin> set (connected s) \<longrightarrow>
        in_room s (resolve_room s c md) = membersOf s (resolve_room s c md))"
proof -
  let ?m = "room_message s c now stamp md"
  let ?s' = "s\<lparr>messages := push_bounded (messages s) ?m\<rparr>"
  have 1: "send_message s c now stamp md =
             Inr (?s', [(in_room s (resolve_room s c md), ReceiveMessage ?m)])"
    by (simp add: send_message_def Let_def io_to_emit_def)
  have 2: "last (messages ?s') = ?m" "room ?m = Some (resolve_room s c md)"
    by (simp_all add: last_push_bounded room_message_def)
  have 3: "\<forall>r. md_room md = Some r \<and> r \<noteq> [] \<longrightarrow> resolve_room s c md = r"
    by (simp add: resolve_room_def js_or_def)
  have 4: "md_room md = None \<or> md_room md = Some [] \<longrightarrow>
        (\<forall>r. map_of (userRooms s) c = Some r \<and> r \<noteq> [] \<longrightarrow> resolve_room s c md = r) \<and>
        (map_of (userRooms s) c = None \<or> map_of (userRooms s) c = Some [] \<longrightarrow>
           resolve_room s c md = ''General'')"
    by (auto simp: resolve_room_def js_or_def)
  have 5: "\<forall>u. map_of (users s) c = Some u \<longrightarrow> readBy ?m = [Some (username u)]"
    by (simp add: room_message_def username_of_def)
  from 1 2 3 4 5 in_room_synced in_room_members show ?thesis
    by (intro exI [of _ ?s'] exI [of _ ?m]) blast
qed


theorem send_message_routing_witness:
  "\<exists>s ds0 u.
     run init
       [(''A'', Connect), (''A'', UserJoin ''alice''), (''B'', Connect), (''B'', UserJoin ''bob''),
        (''C'', Connect), (''C'', UserJoin ''carol''), (''C'', JoinRoom ''Tech'')] = Inr (s, ds0) \<and>
     rooms_synced s \<and> map_of (users s) ''A'' = Some u \<and> username u = ''alice'' \<and>
     map_of (userRooms s) ''A'' = Some ''General'' \<and>
     ''General'' \<notin> set (connected s) \<and> ''Tech'' \<notin> set (connected s) \<and>
     (\<exists>s' m. send_message s ''A'' 1000 ''t'' \<lparr>md_message = ''hi'', md_room = None\<rparr> =
               Inr (s', [([''A'', ''B''], ReceiveMessage m)]) \<and>
        room m = Some ''General'' \<and> readBy m = [Some ''alice''] \<and>
        membersOf s ''General'' = [''A'', ''B'']) \<and>
     (\<exists>s' m. send_message s ''A'' 1000 ''t'' \<lparr>md_message = ''hi'', md_room = Some ''Tech''\<rparr> =
               Inr (s', [([''C''], ReceiveMessage m)]) \<and>
        room m = Some ''Tech'' \<and> readBy m = [Some ''alice''] \<and>
        membersOf s ''Tech'' = [''C''])"
proof -
  obtain s ds0 u where
    r: "run init
       [(''A'', Connect), (''A'', UserJoin ''alice''), (''B'', Connect), (''B'', UserJoin ''bob''),
        (''C'', Connect), (''C'', UserJoin ''carol''), (''C'', JoinRoom ''Tech'')] = Inr (s, ds0)"
    and sy: "rooms_synced s"
    and u: "map_of (users s) ''A'' = Some u" "username u = ''alice''"
    and ur: "map_of (userRooms s) ''A'' = Some ''General''"
    and nc: "''General'' \<notin> set (connected s)" "''Tech'' \<notin> set (connected s)"
    and mg: "membersOf s ''General'' = [''A'', ''B'']"
    and mt: "membersOf s ''Tech'' = [''C'']"
    by (simp add: handler_defs rooms_synced_def membersOf_def insert_commute)
  let ?md1 = "\<lparr>md_message = ''hi'', md_room = None\<rparr>"
  let ?md2 = "\<lparr>md_message = ''hi'', md_room = Some ''Tech''\<rparr>"
  have r1: "resolve_room s ''A'' ?md1 = ''General''"
    using send_message_routing [of s "''A''" 1000 "''t''" ?md1] ur by auto
  have r2: "resolve_room s ''A'' ?md2 = ''Tech''"
    using send_message_routing [of s "''A''" 1000 "''t''" ?md2] by auto
  have a: "\<exists>s' m. send_message s ''A'' 1000 ''t'' ?md1 =
               Inr (s', [([''A'', ''B''], ReceiveMessage m)]) \<and>
        room m = Some ''General'' \<and> readBy m = [Some ''alice'']"
    using send_message_routing [of s "''A''" 1000 "''t''" ?md1] sy u nc mg
    unfolding r1 by (elim exE conjE) (auto simp del: messageData.simps)
  have b: "\<exists>s' m. send_message s ''A'' 1000 ''t'' ?md2 =
               Inr (s', [([''C''], ReceiveMessage m)]) \<and>
        room m = Some ''Tech'' \<and> readBy m = [Some ''alice'']"
    using send_message_routing [of s "''A''" 1000 "''t''" ?md2] sy u nc mt
    unfolding r2 by (elim exE conjE) (auto simp del: messageData.simps)
  from r sy u ur nc mg mt a b show ?thesis
    by blast
qed


subsection \<open>Private messages\<close>

text \<open>
  Claim C4: a private message of a registered connection \<^verbatim>\<open>S\<close> to the connection id
  \<^verbatim>\<open>T\<close> is delivered to exactly two connections, \<^verbatim>\<open>S\<close> and \<^verbatim>\<open>T\<close>. The handler
  sends to the transport room named \<^verbatim>\<open>T\<close>, and \<^verbatim>\<open>join_room\<close> lets any connection
  join a room of that name: connection \<^verbatim>\<open>U\<close>, which joined the room \<^verbatim>\<open>T\<close>, receives
  the private message that \<^verbatim>\<open>S\<close> sends to \<^verbatim>\<open>T\<close>.
\<close>

theorem private_message_third_party:
  "(case run init
      [(''S'', Connect), (''S'', UserJoin ''sam''), (''T'', Connect), (''T'', UserJoin ''tom''),
       (''U'', Connect), (''U'', JoinRoom ''T''),
       (''S'', PrivateMessage 1000 ''t'' ''T'' ''psst'')] of
      Inl e \<Rightarrow> False
    | Inr (s, ds) \<Rightarrow>
        map fst (drop 4 ds) = [[''T'', ''U''], [''S'']] \<and>
        map snd (drop 4 ds) =
          replicate 2 (PrivateMessageN
            \<lparr>msg_id = 1000, sender = ''sam'', senderId = ''S'', message = ''psst'',
             timestamp = ''t'', room = None, isPrivate = True,
             readBy = [Some ''sam''], reactions = None\<rparr>))"
  by (simp add: handler_defs numeral_2_eq_2)

text \<open>
  The transport leaves out the room named by the sender's id: a recipient that has joined
  a room of the name \<^verbatim>\<open>S\<close> does not receive the private message that \<^verbatim>\<open>S\<close> sends to
  it.
\<close>

lemma private_message_recipient_in_sender_room:
  "(case run init
      [(''S'', Connect), (''S'', UserJoin ''sam''), (''T'', Connect), (''T'', UserJoin ''tom''),
       (''T'', JoinRoom ''S''),
       (''S'', PrivateMessage 1000 ''t'' ''T'' ''psst'')] of
      Inl e \<Rightarrow> False
    | Inr (s, ds) \<Rightarrow> map fst (drop 4 ds) = [[], [''S'']])"
  by (simp add: handler_defs)

lemma filter_eq_distinct:
  "distinct xs \<Longrightarrow> filter (\<lambda>d. d = t \<and> d \<noteq> c) xs = (if t \<in> set xs \<and> t \<noteq> c then [t] else [])"
  by (induction xs) auto

text \<open>
  What holds of every \<^verbatim>\<open>private_message\<close> event: it stores a message marked private,
  without a room and without the recipient, with \<open>readBy\<close> exactly the user name of a
  registered sender; only the ledger changes; and the notification goes to the sender
  and to the connections that have joined the room named by the recipient id and not the
  room named by the sender id. In a state where every connection has joined exactly its
  own id and its membership, and no membership is the recipient id or the sender id, that
  is the recipient if it is connected and nobody if it is not.
\<close>

lemma private_message_routing:
  "\<exists>s' m. private_message s c now stamp to body =
            Inr (s', [(filter (\<lambda>d. d \<notin> set (in_room s c)) (in_room s to), PrivateMessageN m),
                      ([c], PrivateMessageN m)]) \<and>
     s' = s\<lparr>messages := push_bounded (messages s) m\<rparr> \<and> last (messages s') = m \<and>
     isPrivate m \<and> room m = None \<and> senderId m = c \<and> message m = body \<and>
     (\<forall>u. map_of (users s) c = Some u \<longrightarrow> readBy m = [Some (username u)]) \<and>
     (rooms_synced s \<and> membersOf s to = [] \<and> membersOf s c = [] \<longrightarrow>
        filter (\<lambda>d. d \<notin> set (in_room s c)) (in_room s to) =
          (if to \<in> set (connected s) \<and> to \<noteq> c then [to] else []))"
proof -
  let ?m = "private_message_data s c now stamp body"
  let ?s' = "s\<lparr>messages := push_bounded (messages s) ?m\<rparr>"
  have 1: "private_message s c now stamp to body =
            Inr (?s', [(filter (\<lambda>d. d \<notin> set (in_room s c)) (in_room s to), PrivateMessageN ?m),
                       ([c], PrivateMessageN ?m)])"
    by (simp add: private_message_def Let_def socket_to_emit_def socket_emit_def)
  have 2: "last (messages ?s') = ?m" "isPrivate ?m" "room ?m = None" "senderId ?m = c"
    "message ?m = body"
    by (simp_all add: last_push_bounded private_message_data_def)
  have 3: "\<forall>u. map_of (users s) c = Some u \<longrightarrow> readBy ?m = [Some (username u)]"
    by (simp add: private_message_data_def username_of_def)
  have 4: "filter (\<lambda>d. d \<notin> set (in_room s c)) (in_room s to) =
             (if to \<in> set (connected s) \<and> to \<noteq> c then [to] else [])"
    if sy: "rooms_synced s" and em: "membersOf s to = []" and ec: "membersOf s c = []"
  proof -
    have no: "map_of (userRooms s) d \<noteq> Some to" "map_of (userRooms s) d \<noteq> Some c"
      if "d \<in> set (connected s)" for d
      using em ec that by (auto simp: membersOf_def filter_empty_conv)
    have own: "(d \<in> set (in_room s c)) = (d = c)" if "d \<in> set (connected s)" for d
      unfolding in_room_synced [OF sy] using that no by auto
    have "in_room s to = filter (\<lambda>d. d = to) (connected s)"
      unfolding in_room_synced [OF sy] using no by (intro filter_cong refl) auto
    then have "filter (\<lambda>d. d \<notin> set (in_room s c)) (in_room s to) =
               filter (\<lambda>d. d = to \<and> d \<notin> set (in_room s c)) (connected s)"
      by (simp add: conj_commute)
    also have "\<dots> = filter (\<lambda>d. d = to \<and> d \<noteq> c) (connected s)"
      using own by (intro filter_cong refl) auto
    also have "\<dots> = (if to \<in> set (connected s) \<and> to \<noteq> c then [to] else [])"
      using sy by (intro filter_eq_distinct) (simp add: rooms_synced_def)
    finally show ?thesis .
  qed
  from 1 2 3 4 show ?thesis
    by (intro exI [of _ ?s'] exI [of _ ?m]) blast
qed

lemma private_message_routing_example:
  "\<exists>s ds0 u.
     run init
       [(''S'', Connect), (''S'', UserJoin ''sam''), (''T'', Connect), (''T'', UserJoin ''tom'')]
       = Inr (s, ds0) \<and>
     rooms_synced s \<and> membersOf s ''T'' = [] \<and> membersOf s ''X'' = [] \<and>
     membersOf s ''S'' = [] \<and>
     map_of (users s) ''S'' = Some u \<and> username u = ''sam'' \<and>
     (\<exists>s' m. private_message s ''S'' 1000 ''t'' ''T'' ''psst'' =
               Inr (s', [([''T''], PrivateMessageN m), ([''S''], PrivateMessageN m)]) \<and>
        isPrivate m \<and> readBy m = [Some ''sam''] \<and> last (messages s') = m) \<and>
     (\<exists>s' m. private_message s ''S'' 1000 ''t'' ''X'' ''psst'' =
               Inr (s', [([], PrivateMessageN m), ([''S''], PrivateMessageN m)]) \<and>
        isPrivate m \<and> readBy m = [Some ''sam''] \<and> last (messages s') = m)"
proof -
  obtain s ds0 u where
    r: "run init
       [(''S'', Connect), (''S'', UserJoin ''sam''), (''T'', Connect), (''T'', UserJoin ''tom'')]
       = Inr (s, ds0)"
    and sy: "rooms_synced s"
    and em: "membersOf s ''T'' = []" "membersOf s ''X'' = []" "membersOf s ''S'' = []"
    and u: "map_of (users s) ''S'' = Some u" "username u = ''sam''"
    and cn: "''T'' \<in> set (connected s)" "''X'' \<notin> set (connected s)"
    by (simp add: handler_defs rooms_synced_def membersOf_def insert_commute)
  have a: "\<exists>s' m. private_message s ''S'' 1000 ''t'' ''T'' ''psst'' =
               Inr (s', [([''T''], PrivateMessageN m), ([''S''], PrivateMessageN m)]) \<and>
        isPrivate m \<and> readBy m = [Some ''sam''] \<and> last (messages s') = m"
    using private_message_routing [of s "''S''" 1000 "''t''" "''T''" "''psst''"] sy em u cn
    by (elim exE conjE) auto
  have b: "\<exists>s' m. private_message s ''S'' 1000 ''t'' ''X'' ''psst'' =
               Inr (s', [([], PrivateMessageN m), ([''S''], PrivateMessageN m)]) \<and>
        isPrivate m \<and> readBy m = [Some ''sam''] \<and> last (messages s') = m"
    using private_message_routing [of s "''S''" 1000 "''t''" "''X''" "''psst''"] sy em u cn
    by (elim exE conjE) auto
  from r sy em u a b show ?thesis
    by blast
qed

end
